theory Spec2Isabelle
  imports Complex_Main
begin

section \<open>Python values\<close>

subsection \<open>Strings\<close>

text \<open>
  A Python \<open>str\<close> is a sequence of Unicode code points.  Text whose characters the code
  inspects (\<open>strip\<close>, \<open>lower\<close>, \<open>in\<close>) is modelled as the list of its code points, so
  that every Python string is covered.  Identifiers that the code only compares for
  equality with its own literals (task names, dictionary keys, action names) are written
  as HOL strings; \<open>codes\<close> gives the code points of such a literal.
\<close>

type_synonym pystr = "nat list"

definition codes :: "string \<Rightarrow> pystr" where
  "codes s = map of_char s"

text \<open>
  The characters that \<open>str.strip()\<close> removes are those for which \<open>str.isspace()\<close> holds:
  tab to carriage return, the separators \<open>U+001C\<close>--\<open>U+001F\<close>, space, \<open>U+0085\<close>, \<open>U+00A0\<close>,
  \<open>U+1680\<close>, \<open>U+2000\<close>--\<open>U+200A\<close>, \<open>U+2028\<close>, \<open>U+2029\<close>, \<open>U+202F\<close>, \<open>U+205F\<close> and
  \<open>U+3000\<close>.
\<close>

definition is_space :: "nat \<Rightarrow> bool" where
  "is_space c =
     (c \<in> set [9, 10, 11, 12, 13, 28, 29, 30, 31, 32, 133, 160, 5760,
                8192, 8193, 8194, 8195, 8196, 8197, 8198, 8199, 8200, 8201, 8202,
                8232, 8233, 8239, 8287, 12288])"

definition strip :: "pystr \<Rightarrow> pystr" where
  "strip s = rev (dropWhile is_space (rev (dropWhile is_space s)))"

text \<open>
  \<open>str.lower()\<close>.  On a string whose code points are all below 256 it works character by
  character: \<open>A\<close>--\<open>Z\<close> and \<open>U+00C0\<close>--\<open>U+00DE\<close> (without the multiplication sign
  \<open>U+00D7\<close>) move up by 32, everything else stays.  For a string with a code point from
  256 on, the result is given by Python's Unicode tables, which are not part of the
  repository: that case is the parameter \<open>wide_lower\<close>.
\<close>

definition lower_cp :: "nat \<Rightarrow> nat" where
  "lower_cp c =
     (if (65 \<le> c \<and> c \<le> 90) \<or> (192 \<le> c \<and> c \<le> 222 \<and> c \<noteq> 215) then c + 32 else c)"

definition lower :: "(pystr \<Rightarrow> pystr) \<Rightarrow> pystr \<Rightarrow> pystr" where
  "lower wide_lower s = (if list_all (\<lambda>c. c < 256) s then map lower_cp s else wide_lower s)"

text \<open>\<open>x in s\<close> for two strings: \<open>x\<close> occurs in \<open>s\<close> as a contiguous piece.\<close>

fun is_prefix :: "'a list \<Rightarrow> 'a list \<Rightarrow> bool" where
  "is_prefix [] ys = True"
| "is_prefix (x # xs) [] = False"
| "is_prefix (x # xs) (y # ys) = (x = y \<and> is_prefix xs ys)"

fun is_substring :: "'a list \<Rightarrow> 'a list \<Rightarrow> bool" where
  "is_substring xs [] = (xs = [])"
| "is_substring xs (y # ys) = (is_prefix xs (y # ys) \<or> is_substring xs ys)"

subsection \<open>Floats\<close>

text \<open>
  A Python \<open>float\<close> is an IEEE 754 binary64 number: a finite value \<open>m * 2 ^ e\<close> with
  \<open>\<bar>m\<bar> < 2 ^ 53\<close> and \<open>- 1074 \<le> e \<le> 971\<close> (carried here as the real number it denotes; the
  two zeros are not told apart), an infinity or a NaN.
\<close>

datatype pyfloat = Finite real | PosInf | NegInf | NaN

text \<open>
  Rounding a non-negative real to binary64, to nearest with ties to the even mantissa:
  the value is scaled by powers of two until it lies in \<open>[2 ^ 52, 2 ^ 53)\<close> (or the smallest
  exponent is reached), and then rounded to an integer mantissa.
\<close>

function scale_down :: "real \<Rightarrow> int \<Rightarrow> real \<times> int" where
  "scale_down a e = (if 2 ^ 53 \<le> a \<and> e < 1024 then scale_down (a / 2) (e + 1) else (a, e))"
  by pat_completeness auto

termination
  by (relation "measure (\<lambda>(a, e). nat (1024 - e))") auto

function scale_up :: "real \<Rightarrow> int \<Rightarrow> real \<times> int" where
  "scale_up a e = (if a < 2 ^ 52 \<and> - 1074 < e then scale_up (2 * a) (e - 1) else (a, e))"
  by pat_completeness auto

termination
  by (relation "measure (\<lambda>(a, e). nat (e + 1074))") auto

declare scale_down.simps [simp del]

declare scale_up.simps [simp del]

definition round_half_even :: "real \<Rightarrow> int" where
  "round_half_even a =
     (let f = \<lfloor>a\<rfloor>; r = a - of_int f in
      if r < 1 / 2 then f else if 1 / 2 < r then f + 1 else if even f then f else f + 1)"

definition scaled :: "int \<Rightarrow> int \<Rightarrow> real" where
  "scaled m e = (if 0 \<le> e then of_int m * 2 ^ nat e else of_int m / 2 ^ nat (- e))"

definition round64 :: "real \<Rightarrow> pyfloat" where
  "round64 x =
     (if x = 0 then Finite 0
      else if 2 ^ 1024 \<le> \<bar>x\<bar> then (if x < 0 then NegInf else PosInf)
      else
        (case scale_down \<bar>x\<bar> 0 of (a1, e1) \<Rightarrow>
         case scale_up a1 e1 of (a2, e2) \<Rightarrow>
           (let v = scaled (round_half_even a2) e2 in
            if 2 ^ 1024 \<le> v then (if x < 0 then NegInf else PosInf)
            else Finite (if x < 0 then - v else v))))"

text \<open>
  \<open>x / factor\<close> for a float \<open>x\<close> and a finite positive \<open>factor\<close> (the only divisors in the
  modelled code are the positive constants of a table): the exact quotient, rounded.
\<close>

fun float_div :: "pyfloat \<Rightarrow> real \<Rightarrow> pyfloat" where
  "float_div (Finite x) factor = round64 (x / factor)"
| "float_div PosInf factor = PosInf"
| "float_div NegInf factor = NegInf"
| "float_div NaN factor = NaN"

text \<open>The exceptions that the modelled code raises, each with its message.\<close>

datatype error =
  ValueError string | TypeError string | AttributeError string | OverflowError string

text \<open>
  \<open>float(n)\<close> for a Python \<open>int\<close>: the nearest binary64 number, or \<open>OverflowError\<close> when
  that would be an infinity.
\<close>

definition float_of_int :: "int \<Rightarrow> error + pyfloat" where
  "float_of_int n =
     (case round64 (of_int n) of
        Finite x \<Rightarrow> Inr (Finite x)
      | _ \<Rightarrow> Inl (OverflowError ''int too large to convert to float''))"

section \<open>Task identifiers, dependency tables and sessions\<close>

text \<open>
  Agents (tasks) are identified by strings, exactly as in the Python source.  A dependency
  table is the dictionary returned by \<open>get_agent_dependencies\<close>; it is kept as an
  association list because the source iterates over \<open>dict.items()\<close> in insertion order.
\<close>

type_synonym agent = string
type_synonym dep_table = "(agent \<times> agent list) list"

text \<open>
  The attributes of the session object that the pipelines read and write.  A missing
  \<open>is_proposal_generated\<close> attribute is read as \<open>False\<close> by \<open>getattr\<close>, a missing
  \<open>initial_idea\<close> as \<open>None\<close>.
\<close>

record session =
  is_proposal_generated :: bool
  initial_idea :: "pystr option"
  proposal_title :: pystr
  current_stage :: string

subsection \<open>\<open>EditPipeline.get_agent_dependencies\<close> (edit\_pipeline.py, lines 46--67)\<close>

definition get_agent_dependencies :: dep_table where
  "get_agent_dependencies =
     [(''scope_refinement'', []),
      (''business_analyst'', [''scope_refinement'']),
      (''technical_architect'', [''scope_refinement'']),
      (''project_manager'',
         [''scope_refinement'', ''business_analyst'', ''technical_architect'']),
      (''resource_allocation'',
         [''scope_refinement'', ''business_analyst'', ''technical_architect'',
          ''project_manager''])]"

text \<open>The literal \<open>agent_order\<close> of \<open>EditPipeline._expand_with_dependencies\<close>.\<close>

definition agent_order :: "agent list" where
  "agent_order =
     [''title'', ''scope_refinement'', ''business_analyst'', ''technical_architect'',
      ''project_manager'', ''resource_allocation'']"

subsection \<open>The breadth-first loop shared by both expanders\<close>

text \<open>
  The inner \<open>for agent_name, deps in dependencies.items()\<close> loop: every agent that lists
  \<open>current_agent\<close> among its dependencies and is not yet in \<open>all_affected\<close> is added to
  the set and appended to the work list.
\<close>

fun scan_dependents ::
  "agent \<Rightarrow> dep_table \<Rightarrow> agent set \<times> agent list \<Rightarrow> agent set \<times> agent list" where
  "scan_dependents cur [] (aff, q) = (aff, q)"
| "scan_dependents cur ((name, deps) # rest) (aff, q) =
     (if cur \<in> set deps \<and> name \<notin> aff
      then scan_dependents cur rest (insert name aff, q @ [name])
      else scan_dependents cur rest (aff, q))"

lemma scan_dependents_mono:
  "aff \<subseteq> fst (scan_dependents cur ds (aff, q))"
proof (induction ds arbitrary: aff q)
  case Nil
  then show ?case by simp
next
  case (Cons d ds)
  obtain name deps where d: "d = (name, deps)" by (cases d)
  have "aff \<subseteq> fst (scan_dependents cur ds (aff, q))"
    and "insert name aff \<subseteq> fst (scan_dependents cur ds (insert name aff, q @ [name]))"
    by (rule Cons.IH)+
  then show ?case unfolding d by auto
qed

lemma scan_dependents_upper:
  "fst (scan_dependents cur ds (aff, q)) \<subseteq> aff \<union> fst ` set ds"
  by (induction ds arbitrary: aff q) (fastforce split: if_splits)+

lemma scan_dependents_same:
  "fst (scan_dependents cur ds (aff, q)) = aff \<Longrightarrow> snd (scan_dependents cur ds (aff, q)) = q"
proof (induction ds arbitrary: aff q)
  case Nil
  then show ?case by simp
next
  case (Cons d ds)
  obtain name deps where d: "d = (name, deps)" by (cases d)
  show ?case
  proof (cases "cur \<in> set deps \<and> name \<notin> aff")
    case True
    have "insert name aff \<subseteq> fst (scan_dependents cur ds (insert name aff, q @ [name]))"
      by (rule scan_dependents_mono)
    with Cons.prems d True have False by auto
    then show ?thesis ..
  next
    case False
    with Cons d show ?thesis by auto
  qed
qed

text \<open>
  The outer \<open>while to_process\<close> loop.  Every iteration pops the head of the work list;
  an iteration that lengthens the list also adds a new key of the table to \<open>all_affected\<close>,
  which bounds the number of such iterations.
\<close>

function bfs_loop :: "dep_table \<Rightarrow> agent set \<Rightarrow> agent list \<Rightarrow> agent set" where
  "bfs_loop ds aff [] = aff"
| "bfs_loop ds aff (cur # q) =
     bfs_loop ds (fst (scan_dependents cur ds (aff, q))) (snd (scan_dependents cur ds (aff, q)))"
  by pat_completeness auto

termination
proof (relation "measures [\<lambda>(ds, aff, q). card (fst ` set ds - aff), \<lambda>(ds, aff, q). length q]")
  show "wf (measures [\<lambda>(ds, aff, q). card (fst ` set ds - aff), \<lambda>(ds, aff, q). length q])"
    by simp
next
  fix ds :: dep_table and aff :: "agent set" and cur :: agent and q :: "agent list"
  let ?r = "scan_dependents cur ds (aff, q)"
  show "((ds, fst ?r, snd ?r), (ds, aff, cur # q))
        \<in> measures [\<lambda>(ds, aff, q). card (fst ` set ds - aff), \<lambda>(ds, aff, q). length q]"
  proof (cases "fst ?r = aff")
    case True
    then have "snd ?r = q" by (rule scan_dependents_same)
    with True show ?thesis by (simp add: case_prod_beta)
  next
    case False
    have sub: "aff \<subseteq> fst ?r" by (rule scan_dependents_mono)
    have up: "fst ?r \<subseteq> aff \<union> fst ` set ds" by (rule scan_dependents_upper)
    from False sub obtain x where x: "x \<in> fst ?r" "x \<notin> aff" by blast
    with up have xin: "x \<in> fst ` set ds" by blast
    have "fst ` set ds - fst ?r \<subset> fst ` set ds - aff"
      using sub x xin by blast
    then have "card (fst ` set ds - fst ?r) < card (fst ` set ds - aff)"
      by (intro psubset_card_mono) auto
    then show ?thesis by (simp add: case_prod_beta)
  qed
qed


subsection \<open>\<open>EditPipeline._expand_with_dependencies\<close> (edit\_pipeline.py, lines 69--122)\<close>

text \<open>
  The table is the value of \<open>self.get_agent_dependencies()\<close>; it is an argument here so
  that statements can range over every dependency configuration.  \<open>EditPipeline\<close> itself
  supplies \<^term>\<open>get_agent_dependencies\<close>.
\<close>

definition expand_with_dependencies :: "dep_table \<Rightarrow> session \<Rightarrow> agent list \<Rightarrow> agent list" where
  "expand_with_dependencies dependencies sess primary_agents =
     (if length primary_agents = 1 then primary_agents
      else if \<not> is_proposal_generated sess then
        (let ordered_agents = filter (\<lambda>a. a \<in> set primary_agents) agent_order
         in if ordered_agents \<noteq> [] then ordered_agents else primary_agents)
      else
        (let all_affected = bfs_loop dependencies (set primary_agents) primary_agents
         in filter (\<lambda>a. a \<in> all_affected) agent_order))"

text \<open>\<open>EditPipeline.get_agent_sequence\<close> (lines 37--44).\<close>

definition get_agent_sequence :: "session \<Rightarrow> agent list \<Rightarrow> agent list" where
  "get_agent_sequence sess agents_to_update =
     expand_with_dependencies get_agent_dependencies sess agents_to_update"

subsection \<open>\<open>MasterAgent._expand_with_dependencies\<close> (agent.py, lines 878--916)\<close>

text \<open>The local table \<open>agent_dependencies\<close> and the local \<open>agent_order\<close> of the master agent.\<close>

definition master_agent_dependencies :: dep_table where
  "master_agent_dependencies =
     [(''scope_refinement'', []),
      (''business_analyst'', [''scope_refinement'']),
      (''technical_architect'', [''scope_refinement'', ''business_analyst'']),
      (''project_manager'',
         [''scope_refinement'', ''business_analyst'', ''technical_architect'']),
      (''resource_allocation'',
         [''scope_refinement'', ''business_analyst'', ''technical_architect'',
          ''project_manager''])]"

definition master_agent_order :: "agent list" where
  "master_agent_order =
     [''scope_refinement'', ''business_analyst'', ''technical_architect'',
      ''project_manager'', ''resource_allocation'']"

definition master_expand_with_dependencies :: "agent list \<Rightarrow> agent list" where
  "master_expand_with_dependencies primary_agents =
     (let all_affected = bfs_loop master_agent_dependencies (set primary_agents) primary_agents
      in filter (\<lambda>a. a \<in> all_affected) master_agent_order)"

section \<open>Routing decisions and extracted settings\<close>

text \<open>
  What \<open>float(...)\<close> can be applied to in the rate conversion: an \<open>int\<close>, a \<open>float\<close>, a
  string (parsed by Python's own \<open>float\<close>, which is not part of the repository and is a
  parameter below) or a value on which \<open>float\<close> raises \<open>TypeError\<close>.
\<close>

datatype rate_value = IntVal int | FloatVal pyfloat | Text pystr | Invalid

text \<open>
  One entry of \<open>extracted_settings["rates"]\<close>: either a dictionary that has both a
  \<open>"value"\<close> and a \<open>"unit"\<close> key (the unit already passed through \<open>str\<close>), or anything
  else.
\<close>

datatype rate_info = WithUnit rate_value pystr | Bare rate_value

text \<open>
  The dictionary \<open>extracted_settings\<close>.  A key that is absent is \<open>None\<close>; keys other than
  the three named ones are collected in \<open>other_settings\<close>.
\<close>

record extracted_settings =
  rates :: "(string \<times> rate_info) list option"
  budget :: "string option"
  timeline :: "string option"
  other_settings :: "(string \<times> string) list"

text \<open>The routing decision; \<open>.get("agents_to_rerun", [])\<close> reads a missing list as empty.\<close>

record routing_decision =
  action :: string
  agents_to_rerun :: "agent list"
  extracted :: extracted_settings

subsection \<open>\<open>MasterAgent.get_sub_agents_to_rerun\<close> (agent.py, lines 843--876)\<close>

definition get_sub_agents_to_rerun :: "routing_decision \<Rightarrow> session \<Rightarrow> agent list" where
  "get_sub_agents_to_rerun rd sess =
     (if agents_to_rerun rd = [] then []
      else if action rd = ''generate_proposal''
        then master_expand_with_dependencies (agents_to_rerun rd)
      else if length (agents_to_rerun rd) = 1 \<and> action rd = ''edit''
        then agents_to_rerun rd
      else master_expand_with_dependencies (agents_to_rerun rd))"

text \<open>A set is closed under a table when it contains every dependent of each of its members.\<close>

definition closed_under :: "dep_table \<Rightarrow> agent set \<Rightarrow> bool" where
  "closed_under ds A = (\<forall>(name, deps) \<in> set ds. \<forall>x \<in> A. x \<in> set deps \<longrightarrow> name \<in> A)"


section \<open>Settings merge and constraint propagation\<close>

subsection \<open>Rate conversion (\<open>MasterAgent.execute_pipeline\<close>, agent.py, lines 1136--1221)\<close>

text \<open>The literal \<open>conversion_factors\<close>: hours per unit.\<close>

definition conversion_factors :: "(string \<times> real) list" where
  "conversion_factors =
     [(''hour'', 1), (''hours'', 1), (''day'', 8), (''days'', 8),
      (''week'', 40), (''weeks'', 40), (''month'', 160), (''months'', 160)]"

text \<open>\<open>conversion_factors[unit]\<close> for a unit given by its code points; \<open>None\<close> when the
  unit is not a key.\<close>

definition factor_of :: "pystr \<Rightarrow> real option" where
  "factor_of unit = map_of (map (\<lambda>(name, factor). (codes name, factor)) conversion_factors) unit"

text \<open>
  \<open>float(x)\<close>.  \<open>float_of_str\<close> is Python's parser for numeric strings, \<open>None\<close> being its
  \<open>ValueError\<close>.
\<close>

fun py_float :: "(pystr \<Rightarrow> pyfloat option) \<Rightarrow> rate_value \<Rightarrow> error + pyfloat" where
  "py_float float_of_str (IntVal n) = float_of_int n"
| "py_float float_of_str (FloatVal x) = Inr x"
| "py_float float_of_str (Text s) =
     (case float_of_str s of
        None \<Rightarrow> Inl (ValueError ''could not convert string to float'')
      | Some x \<Rightarrow> Inr x)"
| "py_float float_of_str Invalid =
     Inl (TypeError ''float() argument must be a string or a real number'')"

text \<open>
  The body of the loop over \<open>new_rates.items()\<close> for one role: the hourly rate stored in
  \<open>converted_rates\<close>, or \<open>None\<close> when the entry is skipped by \<open>continue\<close>.  A
  \<open>ValueError\<close> or \<open>TypeError\<close> of \<open>float\<close> is caught by the inner handlers, any other
  exception (the \<open>OverflowError\<close> of a huge \<open>int\<close>) by the outer \<open>except Exception\<close>; each
  handler skips the role.  An entry without unit is stored as \<open>float(rate_info)\<close> by the
  \<open>isinstance\<close> branch when it is a number and by the last branch otherwise.
\<close>

fun convert_rate ::
  "(pystr \<Rightarrow> pyfloat option) \<Rightarrow> (pystr \<Rightarrow> pystr) \<Rightarrow> rate_info \<Rightarrow> pyfloat option" where
  "convert_rate float_of_str wide_lower (WithUnit v u) =
     (case py_float float_of_str v of
        Inl e \<Rightarrow> None
      | Inr val \<Rightarrow>
          (let unit = strip (lower wide_lower u) in
           case factor_of unit of
             Some factor \<Rightarrow> Some (float_div val factor)
           | None \<Rightarrow> Some val))"
| "convert_rate float_of_str wide_lower (Bare v) =
     (case py_float float_of_str v of Inl e \<Rightarrow> None | Inr val \<Rightarrow> Some val)"

text \<open>The whole loop, and the merge \<open>{**current_rates, **converted_rates}\<close> that follows it.\<close>

fun convert_rates ::
  "(pystr \<Rightarrow> pyfloat option) \<Rightarrow> (pystr \<Rightarrow> pystr) \<Rightarrow> (string \<times> rate_info) list
     \<Rightarrow> (string \<times> pyfloat) list" where
  "convert_rates float_of_str wide_lower [] = []"
| "convert_rates float_of_str wide_lower ((role, rate_info) # rest) =
     (case convert_rate float_of_str wide_lower rate_info of
        None \<Rightarrow> convert_rates float_of_str wide_lower rest
      | Some hourly_rate \<Rightarrow> (role, hourly_rate) # convert_rates float_of_str wide_lower rest)"

definition merge_rates ::
  "(pystr \<Rightarrow> pyfloat option) \<Rightarrow> (pystr \<Rightarrow> pystr) \<Rightarrow> (string \<rightharpoonup> pyfloat)
     \<Rightarrow> (string \<times> rate_info) list \<Rightarrow> (string \<rightharpoonup> pyfloat)" where
  "merge_rates float_of_str wide_lower current_rates new_rates =
     (let converted_rates = convert_rates float_of_str wide_lower new_rates in
      if converted_rates \<noteq> [] then current_rates ++ map_of (rev converted_rates)
      else current_rates)"

subsection \<open>Constraint-driven task injection (agent.py, lines 1088--1132)\<close>

text \<open>Truthiness of the values tested by \<open>"k" in extracted_settings and extracted_settings["k"]\<close>.\<close>

definition has_rates :: "extracted_settings \<Rightarrow> bool" where
  "has_rates es = (case rates es of None \<Rightarrow> False | Some rs \<Rightarrow> rs \<noteq> [])"




text \<open>
  The two \<open>CRITICAL\<close> blocks.  The list \<open>agents_to_rerun\<close> is the very list object stored
  in the decision, so every \<open>append\<close> is visible in the decision; the model threads the
  decision through the two blocks.
\<close>

definition inject_for_rates :: "routing_decision \<Rightarrow> routing_decision" where
  "inject_for_rates rd =
     (if has_rates (extracted rd) \<and> ''resource_allocation'' \<notin> set (agents_to_rerun rd)
      then rd\<lparr>agents_to_rerun := agents_to_rerun rd @ [''resource_allocation''],
                action := ''edit''\<rparr>
      else rd)"





section \<open>The proposal state and the compile task\<close>

text \<open>
  The state is a Python dictionary from string keys to values.  The values that the
  modelled code can meet under the keys it reads: strings, numbers, \<open>None\<close>, lists
  (\<open>enabled_agents\<close>) and nested dictionaries (\<open>final_proposal\<close>, \<open>user_settings\<close>).  A
  number stands for every scalar that is true unless zero, has no \<open>len\<close>, is not iterable
  and prints as text that is not blank (\<open>int\<close>, \<open>float\<close>, \<open>bool\<close>).  \<open>ProposalState\<close> declares the section
  keys as \<open>str\<close>; a \<open>TypedDict\<close> is not enforced at run time, so the other shapes are kept.
\<close>

datatype pyval =
  Str pystr | Num int | NoneVal | List "pyval list" | Dict "(string \<times> pyval) list"

type_synonym state = "string \<rightharpoonup> pyval"

text \<open>\<open>state.get(key, default)\<close>.\<close>

definition state_get :: "state \<Rightarrow> string \<Rightarrow> pyval \<Rightarrow> pyval" where
  "state_get st key dflt = (case st key of None \<Rightarrow> dflt | Some v \<Rightarrow> v)"

text \<open>Python truthiness, as tested by \<open>not component\<close>.\<close>

fun truthy :: "pyval \<Rightarrow> bool" where
  "truthy (Str s) = (s \<noteq> [])"
| "truthy (Num n) = (n \<noteq> 0)"
| "truthy NoneVal = False"
| "truthy (List xs) = (xs \<noteq> [])"
| "truthy (Dict kvs) = (kvs \<noteq> [])"

text \<open>
  \<open>str(component).strip() == ""\<close>.  Only a string can print as white space: the text of a
  number, of \<open>None\<close>, of a list and of a dictionary always holds a character that is not white space.
\<close>

fun str_is_blank :: "pyval \<Rightarrow> bool" where
  "str_is_blank (Str s) = (strip s = [])"
| "str_is_blank (Num n) = False"
| "str_is_blank NoneVal = False"
| "str_is_blank (List xs) = False"
| "str_is_blank (Dict kvs) = False"

text \<open>\<open>len(x)\<close>, which raises \<open>TypeError\<close> on a number and on \<open>None\<close>.\<close>

fun py_len :: "pyval \<Rightarrow> error + nat" where
  "py_len (Str s) = Inr (length s)"
| "py_len (List xs) = Inr (length xs)"
| "py_len (Dict kvs) = Inr (length kvs)"
| "py_len (Num n) = Inl (TypeError ''object of type 'int' has no len()'')"
| "py_len NoneVal = Inl (TypeError ''object of type 'NoneType' has no len()'')"

text \<open>\<open>sep.join(xs)\<close>.\<close>

fun join :: "string \<Rightarrow> string list \<Rightarrow> string" where
  "join sep [] = []"
| "join sep [x] = x"
| "join sep (x # y # ys) = x @ sep @ join sep (y # ys)"

subsection \<open>\<open>final_compilation_agent\<close> (final\_compilation/handlers.py, lines 8--73)\<close>

text \<open>The dictionary \<open>required_components\<close>: state key and display name, in source order.\<close>

definition required_components :: "(string \<times> string) list" where
  "required_components =
     [(''refined_scope'', ''refined scope''),
      (''business_analysis'', ''business analysis''),
      (''technical_spec'', ''technical specification''),
      (''project_plan'', ''project plan''),
      (''resource_plan'', ''resource plan'')]"

text \<open>The test of the validation loop for one key.\<close>

definition is_missing :: "state \<Rightarrow> string \<Rightarrow> bool" where
  "is_missing st key =
     (let component = state_get st key (Str []) in \<not> truthy component \<or> str_is_blank component)"

text \<open>The list \<open>missing_components\<close> after the loop: display names, in source order.\<close>

definition missing_components :: "state \<Rightarrow> string list" where
  "missing_components st =
     map snd (filter (\<lambda>(key, name). is_missing st key) required_components)"

text \<open>
  The five \<open>len(...)\<close> of the progress message are evaluated left to right; the first that
  raises ends the call.
\<close>

fun component_lengths :: "pyval list \<Rightarrow> error + nat list" where
  "component_lengths [] = Inr []"
| "component_lengths (v # vs) =
     (case py_len v of
        Inl e \<Rightarrow> Inl e
      | Inr n \<Rightarrow> (case component_lengths vs of Inl e \<Rightarrow> Inl e | Inr ns \<Rightarrow> Inr (n # ns)))"

definition final_compilation_agent :: "state \<Rightarrow> error + state" where
  "final_compilation_agent st =
     (let missing = missing_components st in
      if missing \<noteq> [] then
        (let error_msg = ''Missing required components: '' @ join '', '' missing
         in Inr (st(''current_stage'' \<mapsto> Str (codes ''failed''),
                    ''error'' \<mapsto> Str (codes error_msg))))
      else
        (let refined_scope = state_get st ''refined_scope'' (Str []);
             business_analysis = state_get st ''business_analysis'' (Str []);
             technical_spec = state_get st ''technical_spec'' (Str []);
             project_plan = state_get st ''project_plan'' (Str []);
             resource_plan = state_get st ''resource_plan'' (Str []);
             initial_idea = state_get st ''initial_idea'' (Str []);
             similar_products = state_get st ''similar_products'' (Str []);
             proposal_title = state_get st ''proposal_title'' (Str (codes ''Project Proposal''))
         in case component_lengths
                   [refined_scope, business_analysis, technical_spec, project_plan,
                    resource_plan] of
              Inl e \<Rightarrow> Inl e
            | Inr lens \<Rightarrow>
                (let final_proposal = Dict
                       [(''title'', proposal_title),
                        (''initial_idea'', initial_idea),
                        (''similar_products'', similar_products),
                        (''refined_scope'', refined_scope),
                        (''business_analysis'', business_analysis),
                        (''technical_spec'', technical_spec),
                        (''project_plan'', project_plan),
                        (''resource_plan'', resource_plan)]
                 in Inr (st(''final_proposal'' \<mapsto> final_proposal,
                            ''current_stage'' \<mapsto> Str (codes ''completed''))))))"

subsection \<open>Concrete sessions and states\<close>

text \<open>A session on which a full run has completed, as the stub of master\_agent/test.py.\<close>

definition generated_session :: session where
  "generated_session =
     \<lparr>is_proposal_generated = True, initial_idea = None, proposal_title = [],
      current_stage = ''generated''\<rparr>"

text \<open>
  A state in the manner of final\_compilation/test.py (its texts without the markup),
  with the resource plan emptied.
\<close>

definition st_missing_resource_plan :: state where
  "st_missing_resource_plan = map_of
     [(''initial_idea'', Str (codes ''Task management app for teams'')),
      (''refined_scope'', Str (codes ''Core features only'')),
      (''business_analysis'', Str (codes ''Market looks promising'')),
      (''technical_spec'', Str (codes ''FastAPI backend, React frontend'')),
      (''project_plan'', Str (codes ''3 phases, milestones and hours'')),
      (''resource_plan'', Str [])]"

text \<open>
  The same state with two components missing: the business analysis is white space only
  (a space, a tab, a no-break space \<open>U+00A0\<close> and an em space \<open>U+2003\<close>), and there is no
  resource plan at all.
\<close>

definition st_two_missing :: state where
  "st_two_missing = map_of
     [(''initial_idea'', Str (codes ''Task management app for teams'')),
      (''refined_scope'', Str (codes ''Core features only'')),
      (''business_analysis'', Str [32, 9, 160, 8195]),
      (''technical_spec'', Str (codes ''FastAPI backend, React frontend'')),
      (''project_plan'', Str (codes ''3 phases, milestones and hours''))]"

section \<open>Pipelines\<close>

text \<open>
  \<open>_run_agent(agent_name, state.copy(), callback)\<close>: the registry lookup, the agent's
  \<open>prepare_state\<close> and its \<open>run\<close>.  What a task computes is outside the orchestration
  core, so the runner is a parameter: it maps the task and the snapshot it is given to
  the state it returns, or to the exception it raises.
\<close>

type_synonym runner = "agent \<Rightarrow> state \<Rightarrow> error + state"

text \<open>
  \<open>as_completed\<close> yields the futures of one batch in the order in which they finish.
  That order is not determined by the program; it is a parameter that maps the
  submitted batch to the order of collection.
\<close>

type_synonym completion = "agent list \<Rightarrow> agent list"

text \<open>
  What one call of \<open>execute\<close> leaves behind: the batches submitted to a thread pool, in
  order; the state dictionary (updated in place, so also visible after a \<open>raise\<close>); the
  session; and the exception that left the call, if any.
\<close>

record execution =
  dispatched :: "agent list list"
  final_state :: state
  final_session :: session
  raised :: "error option"

subsection \<open>\<open>BasePipeline\<close> (base\_pipeline.py)\<close>

text \<open>\<open>BasePipeline.validate_prerequisites\<close> (lines 69--78).\<close>

definition validate_prerequisites :: "state \<Rightarrow> bool" where
  "validate_prerequisites st = True"

subsection \<open>\<open>EditPipeline\<close> (edit\_pipeline.py)\<close>

text \<open>\<open>EditPipeline.validate_prerequisites\<close> (lines 186--200).\<close>

definition edit_validate_prerequisites :: "agent list \<Rightarrow> state \<Rightarrow> bool" where
  "edit_validate_prerequisites agents_to_update st =
     (if agents_to_update = [] then False else True)"

text \<open>
  \<open>EditPipeline._group_by_dependency_level\<close> (lines 124--184).  The inner \<open>get_level\<close>
  recurses through the dependency table; its cache \<open>agent_levels\<close> only stores what the
  recursion returns.  The first argument bounds the depth of the recursion: \<open>None\<close> is
  Python's \<open>RecursionError\<close> on a cyclic table.
\<close>

definition has_initial_idea :: "session \<Rightarrow> bool" where
  "has_initial_idea sess =
     (case initial_idea sess of None \<Rightarrow> False | Some s \<Rightarrow> s \<noteq> [] \<and> strip s \<noteq> [])"

fun get_level :: "nat \<Rightarrow> dep_table \<Rightarrow> agent list \<Rightarrow> agent \<Rightarrow> int option" where
  "get_level 0 dependencies agent_sequence agent_name = None"
| "get_level (Suc depth) dependencies agent_sequence agent_name =
     (let deps = (case map_of dependencies agent_name of None \<Rightarrow> [] | Some ds \<Rightarrow> ds) in
      if deps = [] then Some 0
      else
        (case those (map (get_level depth dependencies agent_sequence)
                      (filter (\<lambda>dep. dep \<in> set agent_sequence) deps)) of
           None \<Rightarrow> None
         | Some dep_levels \<Rightarrow> Some (fold max dep_levels (- 1) + 1)))"

text \<open>The two loops that fill \<open>groups\<close>, and the final \<open>sorted(groups.keys())\<close>.\<close>

definition group_levels :: "(agent \<times> int) list \<Rightarrow> agent list list" where
  "group_levels leveled =
     map (\<lambda>level. map fst (filter (\<lambda>(a, l). l = level) leveled))
         (sort (remdups (map snd leveled)))"

definition group_by_dependency_level ::
  "nat \<Rightarrow> dep_table \<Rightarrow> session \<Rightarrow> agent list \<Rightarrow> agent list list option" where
  "group_by_dependency_level depth dependencies sess agent_sequence =
     (if \<not> is_proposal_generated sess \<and> has_initial_idea sess then Some [agent_sequence]
      else
        (case those (map (get_level depth dependencies agent_sequence) agent_sequence) of
           None \<Rightarrow> None
         | Some levels \<Rightarrow> Some (group_levels (zip agent_sequence levels))))"

text \<open>
  The collection loop of \<open>EditPipeline.execute\<close> (lines 286--295).  Every task was
  submitted with a copy of the state taken before any result was merged, so every task
  runs on the same \<open>snapshot\<close>; the results are merged by \<open>state.update\<close> in completion
  order, and the first exception ends the loop.
\<close>

fun edit_collect :: "runner \<Rightarrow> state \<Rightarrow> agent list \<Rightarrow> state \<Rightarrow> state \<times> error option" where
  "edit_collect run snapshot [] st = (st, None)"
| "edit_collect run snapshot (agent_name # rest) st =
     (case run agent_name snapshot of
        Inl e \<Rightarrow> (st, Some e)
      | Inr updated_state \<Rightarrow> edit_collect run snapshot rest (st ++ updated_state))"

text \<open>
  \<open>EditPipeline.execute\<close> (lines 249--304).  \<open>ThreadPoolExecutor(max_workers=0)\<close> raises
  \<open>ValueError\<close>, which is what happens when the expanded sequence is empty.
\<close>

definition edit_execute ::
  "runner \<Rightarrow> completion \<Rightarrow> session \<Rightarrow> agent list \<Rightarrow> state \<Rightarrow> execution" where
  "edit_execute run order sess agents_to_update st =
     (if \<not> edit_validate_prerequisites agents_to_update st then
        \<lparr>dispatched = [], final_state = st, final_session = sess,
         raised = Some (ValueError
           ''Prerequisites not met for edit pipeline. Agents to update must be specified.'')\<rparr>
      else
        (let agent_sequence = get_agent_sequence sess agents_to_update in
         if agent_sequence = [] then
           \<lparr>dispatched = [], final_state = st, final_session = sess,
            raised = Some (ValueError ''max_workers must be greater than 0'')\<rparr>
         else
           (case edit_collect run st (order agent_sequence) st of
              (st', err) \<Rightarrow>
                \<lparr>dispatched = [agent_sequence], final_state = st', final_session = sess,
                 raised = err\<rparr>)))"

subsection \<open>\<open>FullProposalPipeline\<close> (full\_proposal\_pipeline.py)\<close>

text \<open>\<open>get_agent_sequence\<close> (lines 18--32) and \<open>get_parallel_groups\<close> (lines 66--88).\<close>

definition full_agent_sequence :: "agent list" where
  "full_agent_sequence =
     [''title'', ''scope_refinement'', ''business_analyst'', ''technical_architect'',
      ''project_manager'', ''resource_allocation'', ''final_compilation'']"

definition get_parallel_groups :: "agent list list" where
  "get_parallel_groups =
     [[''title''],
      [''scope_refinement'', ''business_analyst'', ''technical_architect'',
       ''project_manager'', ''resource_allocation''],
      [''final_compilation'']]"

text \<open>
  \<open>agent in enabled_agents\<close> (line 169).  The key \<open>enabled_agents\<close> is written nowhere in
  the repository, so the test is modelled for every shape of value: membership for a
  list, the substring test for a string, the key test for a dictionary, and the
  \<open>TypeError\<close> of a value that is not iterable.
\<close>

fun py_in :: "agent \<Rightarrow> pyval \<Rightarrow> error + bool" where
  "py_in a (Str s) = Inr (is_substring (codes a) s)"
| "py_in a (List xs) = Inr (Str (codes a) \<in> set xs)"
| "py_in a (Dict kvs) = Inr (a \<in> set (map fst kvs))"
| "py_in a (Num n) = Inl (TypeError ''argument of type 'int' is not iterable'')"
| "py_in a NoneVal = Inl (TypeError ''argument of type 'NoneType' is not iterable'')"

text \<open>The list comprehension \<open>[agent for agent in agent_sequence if agent in enabled_agents]\<close>.\<close>

fun filter_in :: "agent list \<Rightarrow> pyval \<Rightarrow> error + agent list" where
  "filter_in [] v = Inr []"
| "filter_in (a # rest) v =
     (case py_in a v of
        Inl e \<Rightarrow> Inl e
      | Inr b \<Rightarrow>
          (case filter_in rest v of
             Inl e \<Rightarrow> Inl e
           | Inr kept \<Rightarrow> Inr (if b then a # kept else kept)))"

text \<open>
  Lines 164--172: the sequence is filtered only when \<open>state.get("enabled_agents")\<close> is
  true; an absent key, \<open>None\<close>, an empty list, string or dictionary and zero leave it as
  it is.
\<close>

definition filtered_agent_sequence :: "state \<Rightarrow> error + agent list" where
  "filtered_agent_sequence st =
     (case st ''enabled_agents'' of
        None \<Rightarrow> Inr full_agent_sequence
      | Some enabled_agents \<Rightarrow>
          if truthy enabled_agents then filter_in full_agent_sequence enabled_agents
          else Inr full_agent_sequence)"

text \<open>Lines 176--184: each group keeps the tasks of the sequence; empty groups are dropped.\<close>

definition filtered_parallel_groups :: "agent list \<Rightarrow> agent list list" where
  "filtered_parallel_groups agent_sequence =
     filter (\<lambda>filtered_group. filtered_group \<noteq> [])
       (map (filter (\<lambda>agent. agent \<in> set agent_sequence)) get_parallel_groups)"

text \<open>
  Lines 216--229: when the title task has delivered a \<open>proposal_title\<close>, its stripped text
  is stored in the session at once.  \<open>.strip()\<close> on a value that is not a string raises
  \<open>AttributeError\<close>.
\<close>

definition save_title :: "agent \<Rightarrow> state \<Rightarrow> session \<Rightarrow> error + session" where
  "save_title agent_name updated_state sess =
     (if agent_name = ''title'' then
        (case updated_state ''proposal_title'' of
           None \<Rightarrow> Inr sess
         | Some (Str t) \<Rightarrow>
             if strip t \<noteq> [] then Inr (sess\<lparr>proposal_title := strip t\<rparr>) else Inr sess
         | Some v \<Rightarrow> Inl (AttributeError ''object has no attribute 'strip' ''))
      else Inr sess)"

text \<open>The collection loop of one group (lines 207--232).\<close>

fun full_collect ::
  "runner \<Rightarrow> state \<Rightarrow> agent list \<Rightarrow> state \<times> session \<Rightarrow> state \<times> session \<times> error option" where
  "full_collect run snapshot [] (st, sess) = (st, sess, None)"
| "full_collect run snapshot (agent_name # rest) (st, sess) =
     (case run agent_name snapshot of
        Inl e \<Rightarrow> (st, sess, Some e)
      | Inr updated_state \<Rightarrow>
          (case save_title agent_name updated_state sess of
             Inl e \<Rightarrow> (st ++ updated_state, sess, Some e)
           | Inr sess' \<Rightarrow> full_collect run snapshot rest (st ++ updated_state, sess')))"

text \<open>
  The loop over the groups (lines 186--232) and the epilogue (lines 238--249).  A group
  is submitted only after the collection loop of the previous group has ended; its
  tasks get a copy of the state as it is then.
\<close>

fun run_groups ::
  "runner \<Rightarrow> completion \<Rightarrow> agent list \<Rightarrow> agent list list \<Rightarrow> agent list list
     \<Rightarrow> state \<Rightarrow> session \<Rightarrow> execution" where
  "run_groups run order agent_sequence [] done st sess =
     \<lparr>dispatched = done, final_state = st,
      final_session = sess\<lparr>is_proposal_generated := True, current_stage := ''completed''\<rparr>,
      raised = None\<rparr>"
| "run_groups run order agent_sequence (agent_group # rest) done st sess =
     (let agents_to_run = filter (\<lambda>a. a \<in> set agent_sequence) agent_group in
      if agents_to_run = [] then run_groups run order agent_sequence rest done st sess
      else
        (case full_collect run st (order agents_to_run) (st, sess) of
           (st', sess', Some e) \<Rightarrow>
             \<lparr>dispatched = done @ [agents_to_run], final_state = st', final_session = sess',
              raised = Some e\<rparr>
         | (st', sess', None) \<Rightarrow>
             run_groups run order agent_sequence rest (done @ [agents_to_run]) st' sess'))"

text \<open>
  \<open>FullProposalPipeline.execute\<close> (lines 139--254).  The class does not override
  \<open>validate_prerequisites\<close>, so the test is the one of \<open>BasePipeline\<close>.
\<close>

definition full_execute :: "runner \<Rightarrow> completion \<Rightarrow> session \<Rightarrow> state \<Rightarrow> execution" where
  "full_execute run order sess st =
     (if \<not> validate_prerequisites st then
        \<lparr>dispatched = [], final_state = st, final_session = sess,
         raised = Some (ValueError
           ''Prerequisites not met for full proposal generation. Initial idea is required.'')\<rparr>
      else
        (case filtered_agent_sequence st of
           Inl e \<Rightarrow> \<lparr>dispatched = [], final_state = st, final_session = sess, raised = Some e\<rparr>
         | Inr agent_sequence \<Rightarrow>
             run_groups run order agent_sequence (filtered_parallel_groups agent_sequence)
               [] st sess))"

subsection \<open>\<open>MasterAgent.execute_pipeline\<close>: the initial idea (agent.py, lines 945--953)\<close>

section \<open>Auxiliary lemmas\<close>

subsection \<open>The breadth-first closure\<close>

lemma scan_dependents_queue:
  "set (snd (scan_dependents cur ds (aff, q))) \<subseteq> set q \<union> fst (scan_dependents cur ds (aff, q))"
proof (induction ds arbitrary: aff q)
  case Nil
  then show ?case by simp
next
  case (Cons d ds)
  obtain name deps where d: "d = (name, deps)" by (cases d)
  have m: "insert name aff \<subseteq> fst (scan_dependents cur ds (insert name aff, q @ [name]))"
    by (rule scan_dependents_mono)
  show ?case using Cons.IH [of aff q] Cons.IH [of "insert name aff" "q @ [name]"] m
    unfolding d by auto
qed

lemma scan_dependents_covers:
  "(name, deps) \<in> set ds \<Longrightarrow> cur \<in> set deps \<Longrightarrow> name \<in> fst (scan_dependents cur ds (aff, q))"
proof (induction ds arbitrary: aff q)
  case Nil
  then show ?case by simp
next
  case (Cons d ds)
  obtain n' deps' where d: "d = (n', deps')" by (cases d)
  have m1: "aff \<subseteq> fst (scan_dependents cur ds (aff, q))"
    and m2: "insert n' aff \<subseteq> fst (scan_dependents cur ds (insert n' aff, q @ [n']))"
    by (rule scan_dependents_mono)+
  show ?case
  proof (cases "(name, deps) = d")
    case True
    with Cons.prems d m1 m2 show ?thesis by auto
  next
    case False
    with Cons.prems have "(name, deps) \<in> set ds" by simp
    with Cons.IH Cons.prems show ?thesis unfolding d by simp
  qed
qed

lemma scan_dependents_keeps:
  "set q \<subseteq> set (snd (scan_dependents cur ds (aff, q)))"
proof (induction ds arbitrary: aff q)
  case Nil
  then show ?case by simp
next
  case (Cons d ds)
  obtain name deps where d: "d = (name, deps)" by (cases d)
  show ?case using Cons.IH [of q aff] Cons.IH [of "q @ [name]" "insert name aff"]
    unfolding d by auto
qed

lemma scan_dependents_new:
  "fst (scan_dependents cur ds (aff, q)) - aff \<subseteq> set (snd (scan_dependents cur ds (aff, q)))"
proof (induction ds arbitrary: aff q)
  case Nil
  then show ?case by simp
next
  case (Cons d ds)
  obtain name deps where d: "d = (name, deps)" by (cases d)
  have k: "set (q @ [name]) \<subseteq> set (snd (scan_dependents cur ds (insert name aff, q @ [name])))"
    by (rule scan_dependents_keeps)
  show ?case using Cons.IH [of aff q] Cons.IH [of "insert name aff" "q @ [name]"] k
    unfolding d by auto
qed

text \<open>
  The loop invariant: every member of \<open>all_affected\<close> that is no longer in the work list has
  all its dependents in \<open>all_affected\<close>.
\<close>

lemma bfs_loop_closed:
  "\<forall>(name, deps) \<in> set ds. \<forall>x \<in> aff - set q. x \<in> set deps \<longrightarrow> name \<in> aff
   \<Longrightarrow> set q \<subseteq> aff \<Longrightarrow> closed_under ds (bfs_loop ds aff q)"
proof (induction ds aff q rule: bfs_loop.induct)
  case (1 ds aff)
  then show ?case by (simp add: closed_under_def)
next
  case (2 ds aff cur q)
  let ?r = "scan_dependents cur ds (aff, q)"
  have mono: "aff \<subseteq> fst ?r" by (rule scan_dependents_mono)
  have qsub: "set (snd ?r) \<subseteq> set q \<union> fst ?r" by (rule scan_dependents_queue)
  have inv: "\<forall>(name, deps) \<in> set ds. \<forall>x \<in> fst ?r - set (snd ?r). x \<in> set deps \<longrightarrow> name \<in> fst ?r"
  proof (clarify)
    fix name deps x
    assume nd: "(name, deps) \<in> set ds" and x: "x \<in> fst ?r" "x \<notin> set (snd ?r)" "x \<in> set deps"
    show "name \<in> fst ?r"
    proof (cases "x = cur")
      case True
      with nd x show ?thesis by (simp add: scan_dependents_covers)
    next
      case False
      show ?thesis
      proof (cases "x \<in> aff")
        case True
        have "set q \<subseteq> set (snd ?r)" by (rule scan_dependents_keeps)
        with x have "x \<notin> set q" by blast
        with True False have "x \<in> aff - set (cur # q)" by simp
        with "2.prems"(1) nd x have "name \<in> aff" by blast
        with mono show ?thesis by blast
      next
        case False
        have "fst ?r - aff \<subseteq> set (snd ?r)" by (rule scan_dependents_new)
        with x False show ?thesis by blast
      qed
    qed
  qed
  have "set (snd ?r) \<subseteq> fst ?r" using qsub "2.prems"(2) mono by auto
  with inv "2.IH" show ?case by simp
qed

lemma bfs_loop_superset: "aff \<subseteq> bfs_loop ds aff q"
proof (induction ds aff q rule: bfs_loop.induct)
  case (1 ds aff)
  then show ?case by simp
next
  case (2 ds aff cur q)
  have "aff \<subseteq> fst (scan_dependents cur ds (aff, q))" by (rule scan_dependents_mono)
  with "2.IH" show ?case by auto
qed

lemma bfs_loop_upper: "bfs_loop ds aff q \<subseteq> aff \<union> fst ` set ds"
proof (induction ds aff q rule: bfs_loop.induct)
  case (1 ds aff)
  then show ?case by simp
next
  case (2 ds aff cur q)
  have "fst (scan_dependents cur ds (aff, q)) \<subseteq> aff \<union> fst ` set ds"
    by (rule scan_dependents_upper)
  with "2.IH" show ?case by auto
qed

lemma scan_dependents_within:
  "closed_under ds C \<Longrightarrow> cur \<in> C \<Longrightarrow> aff \<subseteq> C \<Longrightarrow> set ds' \<subseteq> set ds
   \<Longrightarrow> fst (scan_dependents cur ds' (aff, q)) \<subseteq> C"
proof (induction ds' arbitrary: aff q)
  case Nil
  then show ?case by simp
next
  case (Cons d ds')
  obtain name deps where d: "d = (name, deps)" by (cases d)
  from Cons.prems have sub: "set ds' \<subseteq> set ds" and mem: "(name, deps) \<in> set ds"
    unfolding d by auto
  show ?case
  proof (cases "cur \<in> set deps \<and> name \<notin> aff")
    case True
    with mem Cons.prems(1,2) have "name \<in> C" unfolding closed_under_def by blast
    with Cons.prems(3) have "insert name aff \<subseteq> C" by simp
    from Cons.IH [OF Cons.prems(1,2) this sub] True show ?thesis unfolding d by simp
  next
    case False
    from Cons.IH [OF Cons.prems(1,2,3) sub] False show ?thesis unfolding d by auto
  qed
qed

lemma bfs_loop_least:
  "closed_under ds C \<Longrightarrow> aff \<subseteq> C \<Longrightarrow> set q \<subseteq> aff \<Longrightarrow> bfs_loop ds aff q \<subseteq> C"
proof (induction ds aff q rule: bfs_loop.induct)
  case (1 ds aff)
  then show ?case by simp
next
  case (2 ds aff cur q)
  let ?r = "scan_dependents cur ds (aff, q)"
  from "2.prems" have cur: "cur \<in> C" by auto
  have in_C: "fst ?r \<subseteq> C"
    by (rule scan_dependents_within [OF "2.prems"(1) cur "2.prems"(2)]) simp
  have "set (snd ?r) \<subseteq> set q \<union> fst ?r" by (rule scan_dependents_queue)
  moreover have "aff \<subseteq> fst ?r" by (rule scan_dependents_mono)
  ultimately have "set (snd ?r) \<subseteq> fst ?r" using "2.prems"(3) by auto
  from "2.IH" [OF "2.prems"(1) in_C this] show ?case by simp
qed

lemma closure_closed: "closed_under ds (bfs_loop ds (set xs) xs)"
  by (rule bfs_loop_closed) auto


lemma table_keys_in_order: "fst ` set get_agent_dependencies \<subseteq> set agent_order"
  by (simp add: get_agent_dependencies_def agent_order_def)

lemma master_keys_in_order: "fst ` set master_agent_dependencies \<subseteq> set master_agent_order"
  by (simp add: master_agent_dependencies_def master_agent_order_def)

lemma distinct_agent_order: "distinct agent_order"
  by (simp add: agent_order_def)

lemma distinct_master_agent_order: "distinct master_agent_order"
  by (simp add: master_agent_order_def)

lemma filter_closure_closed:
  assumes keys: "fst ` set ds \<subseteq> set order"
  shows "closed_under ds (set (filter (\<lambda>a. a \<in> bfs_loop ds (set xs) xs) order))"
proof -
  have c: "closed_under ds (bfs_loop ds (set xs) xs)" by (rule closure_closed)
  show ?thesis
    unfolding closed_under_def
  proof (clarify)
    fix name deps x
    assume nd: "(name, deps) \<in> set ds"
      and x: "x \<in> set (filter (\<lambda>a. a \<in> bfs_loop ds (set xs) xs) order)" "x \<in> set deps"
    from x have "x \<in> bfs_loop ds (set xs) xs" by simp
    with c nd x(2) have "name \<in> bfs_loop ds (set xs) xs"
      unfolding closed_under_def by blast
    moreover from nd keys have "name \<in> set order" by force
    ultimately show "name \<in> set (filter (\<lambda>a. a \<in> bfs_loop ds (set xs) xs) order)" by simp
  qed
qed

lemma filter_closure_least:
  assumes "closed_under ds C" "set xs \<subseteq> C"
  shows "set (filter (\<lambda>a. a \<in> bfs_loop ds (set xs) xs) order) \<subseteq> C"
  using bfs_loop_least [OF assms(1,2), of xs] by auto

lemma filter_closure_requested:
  "set xs \<inter> set order \<subseteq> set (filter (\<lambda>a. a \<in> bfs_loop ds (set xs) xs) order)"
  using bfs_loop_superset [of "set xs" ds xs] by auto

lemma filter_self: "filter (\<lambda>a. a \<in> set (filter P xs)) xs = filter P xs"
  by (rule filter_cong) auto

lemma filter_closure_exact:
  "\<forall>a. a \<in> set (filter (\<lambda>a. a \<in> bfs_loop ds (set xs) xs) order) \<longleftrightarrow>
        a \<in> set order \<and> (\<forall>C. closed_under ds C \<and> set xs \<subseteq> C \<longrightarrow> a \<in> C)"
proof (intro allI iffI)
  fix a
  assume "a \<in> set (filter (\<lambda>a. a \<in> bfs_loop ds (set xs) xs) order)"
  then have o: "a \<in> set order" and b: "a \<in> bfs_loop ds (set xs) xs" by simp_all
  have "\<forall>C. closed_under ds C \<and> set xs \<subseteq> C \<longrightarrow> a \<in> C"
  proof (intro allI impI)
    fix C assume "closed_under ds C \<and> set xs \<subseteq> C"
    then have "bfs_loop ds (set xs) xs \<subseteq> C" using bfs_loop_least [of ds C "set xs" xs] by simp
    with b show "a \<in> C" by blast
  qed
  with o show "a \<in> set order \<and> (\<forall>C. closed_under ds C \<and> set xs \<subseteq> C \<longrightarrow> a \<in> C)" by simp
next
  fix a
  assume h: "a \<in> set order \<and> (\<forall>C. closed_under ds C \<and> set xs \<subseteq> C \<longrightarrow> a \<in> C)"
  have "closed_under ds (bfs_loop ds (set xs) xs)" by (rule closure_closed)
  moreover have "set xs \<subseteq> bfs_loop ds (set xs) xs" by (rule bfs_loop_superset)
  ultimately have "a \<in> bfs_loop ds (set xs) xs" using h by blast
  with h show "a \<in> set (filter (\<lambda>a. a \<in> bfs_loop ds (set xs) xs) order)" by simp
qed


subsection \<open>Constraint injection\<close>



lemma inject_for_rates_extracted [simp]: "extracted (inject_for_rates rd) = extracted rd"
  by (simp add: inject_for_rates_def)



subsection \<open>Rate conversion\<close>





subsection \<open>The compile task\<close>

lemma strip_empty_iff: "strip s = [] \<longleftrightarrow> (\<forall>c \<in> set s. is_space c)"
proof
  assume "strip s = []"
  then have a: "\<forall>c \<in> set (dropWhile is_space s). is_space c"
    by (simp add: strip_def)
  have "dropWhile is_space s = []"
  proof (rule ccontr)
    assume n: "dropWhile is_space s \<noteq> []"
    then have "\<not> is_space (hd (dropWhile is_space s))" by (rule hd_dropWhile)
    moreover from n have "hd (dropWhile is_space s) \<in> set (dropWhile is_space s)" by simp
    ultimately show False using a by blast
  qed
  then show "\<forall>c \<in> set s. is_space c" by simp
next
  assume "\<forall>c \<in> set s. is_space c"
  then have d: "dropWhile is_space s = []" by simp
  show "strip s = []" unfolding strip_def d by simp
qed

lemma is_missing_absent: "st key = None \<Longrightarrow> is_missing st key"
  by (simp add: is_missing_def state_get_def)

lemma is_missing_Str: "st key = Some (Str s) \<Longrightarrow> is_missing st key \<longleftrightarrow> (\<forall>c \<in> set s. is_space c)"
  by (auto simp: is_missing_def state_get_def strip_empty_iff)

lemma missing_components_member:
  "(key, name) \<in> set required_components
    \<Longrightarrow> name \<in> set (missing_components st) \<longleftrightarrow> is_missing st key"
  by (auto simp: missing_components_def required_components_def)

lemma missing_components_Nil:
  "missing_components st = [] \<longleftrightarrow> (\<forall>key \<in> fst ` set required_components. \<not> is_missing st key)"
  by (auto simp: missing_components_def required_components_def filter_empty_conv)

lemma compile_failure:
  "missing_components st \<noteq> [] \<Longrightarrow>
     final_compilation_agent st
       = Inr (st(''current_stage'' \<mapsto> Str (codes ''failed''),
                ''error'' \<mapsto> Str (codes (''Missing required components: ''
                                   @ join '', '' (missing_components st)))))"
  by (simp add: final_compilation_agent_def Let_def)

lemma component_lengths_Inl:
  "component_lengths vs = Inl e \<Longrightarrow> \<exists>v \<in> set vs. py_len v = Inl e"
  by (induction vs) (auto split: sum.splits)

lemma component_lengths_all:
  "component_lengths vs = Inr ns \<Longrightarrow> \<forall>v \<in> set vs. \<exists>k. py_len v = Inr k"
  by (induction vs arbitrary: ns) (auto split: sum.splits)

lemma py_len_Inl: "py_len v = Inl e \<Longrightarrow> v = NoneVal \<or> (\<exists>n. v = Num n)"
  by (cases v) auto

lemma compile_success:
  assumes "\<forall>key \<in> fst ` set required_components.
             \<exists>s. st key = Some (Str s) \<and> \<not> (\<forall>c \<in> set s. is_space c)"
  shows "final_compilation_agent st
       = Inr (st(''final_proposal'' \<mapsto> Dict
                   [(''title'', state_get st ''proposal_title'' (Str (codes ''Project Proposal''))),
                    (''initial_idea'', state_get st ''initial_idea'' (Str [])),
                    (''similar_products'', state_get st ''similar_products'' (Str [])),
                    (''refined_scope'', state_get st ''refined_scope'' (Str [])),
                    (''business_analysis'', state_get st ''business_analysis'' (Str [])),
                    (''technical_spec'', state_get st ''technical_spec'' (Str [])),
                    (''project_plan'', state_get st ''project_plan'' (Str [])),
                    (''resource_plan'', state_get st ''resource_plan'' (Str []))],
                ''current_stage'' \<mapsto> Str (codes ''completed'')))"
proof -
  have m: "missing_components st = []"
    unfolding missing_components_Nil using assms is_missing_Str by blast
  from assms obtain s1 where s1: "st ''refined_scope'' = Some (Str s1)"
    by (auto simp: required_components_def)
  from assms obtain s2 where s2: "st ''business_analysis'' = Some (Str s2)"
    by (auto simp: required_components_def)
  from assms obtain s3 where s3: "st ''technical_spec'' = Some (Str s3)"
    by (auto simp: required_components_def)
  from assms obtain s4 where s4: "st ''project_plan'' = Some (Str s4)"
    by (auto simp: required_components_def)
  from assms obtain s5 where s5: "st ''resource_plan'' = Some (Str s5)"
    by (auto simp: required_components_def)
  show ?thesis
    using m by (simp add: final_compilation_agent_def Let_def state_get_def s1 s2 s3 s4 s5)
qed

lemma compile_raises_iff:
  "(\<exists>e. final_compilation_agent st = Inl e)
     \<longleftrightarrow> (missing_components st = []
          \<and> (\<exists>key \<in> fst ` set required_components. \<exists>n. st key = Some (Num n)))"
proof
  assume "\<exists>e. final_compilation_agent st = Inl e"
  then obtain e where e: "final_compilation_agent st = Inl e" ..
  have m: "missing_components st = []"
    using e by (auto simp: final_compilation_agent_def Let_def split: if_splits)
  let ?vs = "map (\<lambda>key. state_get st key (Str [])) (map fst required_components)"
  from e m have "component_lengths ?vs = Inl e"
    by (auto simp: final_compilation_agent_def Let_def required_components_def split: sum.splits)
  then obtain v where v: "v \<in> set ?vs" "py_len v = Inl e"
    using component_lengths_Inl by blast
  then obtain key where key: "key \<in> fst ` set required_components" "v = state_get st key (Str [])"
    by auto
  from m key(1) have nm: "\<not> is_missing st key" unfolding missing_components_Nil by blast
  from py_len_Inl [OF v(2)] have "\<exists>n. v = Num n"
  proof
    assume "v = NoneVal"
    with key(2) nm show ?thesis by (simp add: is_missing_def)
  qed
  then obtain n where "v = Num n" ..
  with key(2) nm have "st key = Some (Num n)"
    by (auto simp: state_get_def is_missing_def split: option.splits)
  with m key(1) show "missing_components st = []
          \<and> (\<exists>key \<in> fst ` set required_components. \<exists>n. st key = Some (Num n))" by blast
next
  assume a: "missing_components st = []
          \<and> (\<exists>key \<in> fst ` set required_components. \<exists>n. st key = Some (Num n))"
  then obtain key n where key: "key \<in> fst ` set required_components" "st key = Some (Num n)"
    by blast
  let ?vs = "map (\<lambda>key. state_get st key (Str [])) (map fst required_components)"
  have "\<exists>e. component_lengths ?vs = Inl e"
  proof (rule ccontr)
    assume "\<not> (\<exists>e. component_lengths ?vs = Inl e)"
    then obtain ns where "component_lengths ?vs = Inr ns" by (cases "component_lengths ?vs") auto
    then have "\<forall>v \<in> set ?vs. \<exists>k. py_len v = Inr k"
      by (rule component_lengths_all)
    with key have "\<exists>k. py_len (Num n) = Inr k" by (force simp: state_get_def)
    then show False by simp
  qed
  then obtain e where "component_lengths ?vs = Inl e" ..
  with a show "\<exists>e. final_compilation_agent st = Inl e"
    by (simp add: final_compilation_agent_def Let_def required_components_def)
qed

lemma compile_success_shape:
  assumes "missing_components st = []" and "final_compilation_agent st = Inr out"
  shows "\<exists>fp. out = st(''final_proposal'' \<mapsto> fp, ''current_stage'' \<mapsto> Str (codes ''completed''))"
proof -
  let ?vs = "[state_get st ''refined_scope'' (Str []), state_get st ''business_analysis'' (Str []),
     state_get st ''technical_spec'' (Str []), state_get st ''project_plan'' (Str []),
     state_get st ''resource_plan'' (Str [])]"
  show ?thesis
  proof (cases "component_lengths ?vs")
    case (Inl e)
    with assms show ?thesis by (simp add: final_compilation_agent_def Let_def)
  next
    case (Inr ns)
    with assms show ?thesis by (simp add: final_compilation_agent_def Let_def) blast
  qed
qed

lemma join_Cons: "join sep (n # ns) = n @ concat (map (\<lambda>y. sep @ y) ns)"
  by (induction ns arbitrary: n) auto

lemma is_space_iff:
  "is_space c \<longleftrightarrow>
     c \<in> {9, 10, 11, 12, 13, 28, 29, 30, 31, 32, 133, 160, 5760,
          8192, 8193, 8194, 8195, 8196, 8197, 8198, 8199, 8200, 8201, 8202,
          8232, 8233, 8239, 8287, 12288}"
  by (simp add: is_space_def)

lemma is_missing_cases:
  "(st key = None \<longrightarrow> is_missing st key)
   \<and> (st key = Some (Str s) \<longrightarrow> (is_missing st key \<longleftrightarrow> (\<forall>c \<in> set s. is_space c)))
   \<and> (st key = Some (Num n) \<longrightarrow> (is_missing st key \<longleftrightarrow> n = 0))
   \<and> (st key = Some NoneVal \<longrightarrow> is_missing st key)
   \<and> (st key = Some (List xs) \<longrightarrow> (is_missing st key \<longleftrightarrow> xs = []))
   \<and> (st key = Some (Dict kvs) \<longrightarrow> (is_missing st key \<longleftrightarrow> kvs = []))"
  by (auto simp: is_missing_def state_get_def strip_empty_iff)

lemma missing_components_literal:
  "missing_components st
     = map snd (filter (\<lambda>(key, name). is_missing st key)
         [(''refined_scope'', ''refined scope''),
          (''business_analysis'', ''business analysis''),
          (''technical_spec'', ''technical specification''),
          (''project_plan'', ''project plan''),
          (''resource_plan'', ''resource plan'')])"
  by (simp add: missing_components_def required_components_def)

lemma compile_failure_explicit:
  assumes "missing_components st = n # ns"
  shows "final_compilation_agent st
       = Inr (st(''current_stage'' \<mapsto> Str (codes ''failed''),
                ''error'' \<mapsto> Str (codes (''Missing required components: ''
                                   @ n @ concat (map (\<lambda>y. '', '' @ y) ns)))))"
proof -
  from assms have ne: "missing_components st \<noteq> []" by simp
  show ?thesis
    unfolding compile_failure [OF ne] assms join_Cons by (rule refl)
qed

lemma compile_success_general:
  assumes m: "missing_components st = []"
    and n: "\<forall>k \<in> fst ` set required_components. \<forall>i. st k \<noteq> Some (Num i)"
  shows "final_compilation_agent st
       = Inr (st(''final_proposal'' \<mapsto> Dict
                   [(''title'', state_get st ''proposal_title'' (Str (codes ''Project Proposal''))),
                    (''initial_idea'', state_get st ''initial_idea'' (Str [])),
                    (''similar_products'', state_get st ''similar_products'' (Str [])),
                    (''refined_scope'', state_get st ''refined_scope'' (Str [])),
                    (''business_analysis'', state_get st ''business_analysis'' (Str [])),
                    (''technical_spec'', state_get st ''technical_spec'' (Str [])),
                    (''project_plan'', state_get st ''project_plan'' (Str [])),
                    (''resource_plan'', state_get st ''resource_plan'' (Str []))],
                ''current_stage'' \<mapsto> Str (codes ''completed'')))"
proof -
  let ?vs = "[state_get st ''refined_scope'' (Str []), state_get st ''business_analysis'' (Str []),
     state_get st ''technical_spec'' (Str []), state_get st ''project_plan'' (Str []),
     state_get st ''resource_plan'' (Str [])]"
  have no: "\<not> (\<exists>e. final_compilation_agent st = Inl e)"
    unfolding compile_raises_iff using n by blast
  show ?thesis
  proof (cases "component_lengths ?vs")
    case (Inl e)
    with m have "final_compilation_agent st = Inl e"
      by (simp add: final_compilation_agent_def Let_def)
    with no show ?thesis by blast
  next
    case (Inr lens)
    with m show ?thesis by (simp add: final_compilation_agent_def Let_def)
  qed
qed


subsection \<open>Pipelines\<close>

lemma run_groups_dispatched:
  "\<forall>g \<in> set gs. g \<noteq> [] \<and> set g \<subseteq> set agent_sequence \<Longrightarrow>
   \<exists>rest. done @ gs = dispatched (run_groups run order agent_sequence gs done st sess) @ rest
      \<and> (raised (run_groups run order agent_sequence gs done st sess) = None \<longrightarrow> rest = [])"
proof (induction gs arbitrary: "done" st sess)
  case Nil
  then show ?case by simp
next
  case (Cons g gs)
  from Cons.prems have g: "g \<noteq> []" "set g \<subseteq> set agent_sequence"
    and gs: "\<forall>g \<in> set gs. g \<noteq> [] \<and> set g \<subseteq> set agent_sequence" by auto
  from g(2) have f: "filter (\<lambda>a. a \<in> set agent_sequence) g = g"
    by (auto simp: filter_id_conv)
  obtain st' sess' err where c: "full_collect run st (order g) (st, sess) = (st', sess', err)"
    by (cases "full_collect run st (order g) (st, sess)") auto
  show ?case
  proof (cases err)
    case None
    from Cons.IH [OF gs, of "done @ [g]" st' sess'] None c f g(1)
    show ?thesis by (simp add: Let_def)
  next
    case (Some e)
    with c f g(1) show ?thesis by (simp add: Let_def)
  qed
qed

lemma groups_within_sequence:
  "\<forall>g \<in> set get_parallel_groups. set g \<subseteq> set full_agent_sequence"
  by (simp add: get_parallel_groups_def full_agent_sequence_def)

lemma filtered_groups_wellformed:
  "\<forall>g \<in> set (filtered_parallel_groups agent_sequence).
      g \<noteq> [] \<and> set g \<subseteq> set agent_sequence"
  by (auto simp: filtered_parallel_groups_def)

lemma filter_in_List:
  "filter_in agents (List xs) = Inr (filter (\<lambda>a. Str (codes a) \<in> set xs) agents)"
  by (induction agents) auto

lemma filter_in_Str:
  "filter_in agents (Str s) = Inr (filter (\<lambda>a. is_substring (codes a) s) agents)"
  by (induction agents) auto

lemma filter_in_Dict:
  "filter_in agents (Dict kvs) = Inr (filter (\<lambda>a. a \<in> set (map fst kvs)) agents)"
  by (induction agents) auto

lemma filter_in_Num:
  "agents \<noteq> [] \<Longrightarrow>
   filter_in agents (Num n) = Inl (TypeError ''argument of type 'int' is not iterable'')"
  by (cases agents) auto

lemma filter_filter_sequence:
  assumes "set g \<subseteq> set full_agent_sequence"
  shows "filter (\<lambda>a. a \<in> set (filter P full_agent_sequence)) g = filter P g"
  using assms by (intro filter_cong) auto

lemma filtered_groups_of_filter:
  "filtered_parallel_groups (filter P full_agent_sequence)
     = filter (\<lambda>g. g \<noteq> []) (map (filter P) get_parallel_groups)"
proof -
  have "map (filter (\<lambda>a. a \<in> set (filter P full_agent_sequence))) get_parallel_groups
      = map (filter P) get_parallel_groups"
    using groups_within_sequence by (intro map_cong refl filter_filter_sequence) blast
  then show ?thesis
    unfolding filtered_parallel_groups_def by (simp only:)
qed

lemma filtered_groups_unfiltered:
  "filtered_parallel_groups full_agent_sequence = get_parallel_groups"
  by (simp add: filtered_parallel_groups_def get_parallel_groups_def full_agent_sequence_def)

lemma full_execute_filter_raises:
  "filtered_agent_sequence st = Inl e \<Longrightarrow>
   full_execute run order sess st
     = \<lparr>dispatched = [], final_state = st, final_session = sess, raised = Some e\<rparr>"
  by (simp add: full_execute_def validate_prerequisites_def)

lemma full_execute_dispatched:
  assumes "filtered_agent_sequence st = Inr agent_sequence"
  shows "\<exists>rest. filtered_parallel_groups agent_sequence
            = dispatched (full_execute run order sess st) @ rest
        \<and> (raised (full_execute run order sess st) = None \<longrightarrow> rest = [])"
proof -
  have e: "full_execute run order sess st
      = run_groups run order agent_sequence (filtered_parallel_groups agent_sequence) [] st sess"
    using assms by (simp add: full_execute_def validate_prerequisites_def)
  have w: "\<forall>g \<in> set (filtered_parallel_groups agent_sequence).
      g \<noteq> [] \<and> set g \<subseteq> set agent_sequence"
    by (rule filtered_groups_wellformed)
  from run_groups_dispatched [OF w, where ?done = "[]" and run = run and order = order
      and st = st and sess = sess]
  show ?thesis unfolding e by simp
qed

lemma filtered_sequence_cases:
  "(st ''enabled_agents'' = None \<longrightarrow> filtered_agent_sequence st = Inr full_agent_sequence)
   \<and> (st ''enabled_agents'' = Some v \<and> \<not> truthy v \<longrightarrow>
        filtered_agent_sequence st = Inr full_agent_sequence)
   \<and> (st ''enabled_agents'' = Some (List xs) \<and> xs \<noteq> [] \<longrightarrow>
        filtered_agent_sequence st
          = Inr (filter (\<lambda>a. Str (codes a) \<in> set xs) full_agent_sequence))
   \<and> (st ''enabled_agents'' = Some (Str s) \<and> s \<noteq> [] \<longrightarrow>
        filtered_agent_sequence st
          = Inr (filter (\<lambda>a. is_substring (codes a) s) full_agent_sequence))
   \<and> (st ''enabled_agents'' = Some (Dict kvs) \<and> kvs \<noteq> [] \<longrightarrow>
        filtered_agent_sequence st
          = Inr (filter (\<lambda>a. a \<in> set (map fst kvs)) full_agent_sequence))
   \<and> (st ''enabled_agents'' = Some (Num i) \<and> i \<noteq> 0 \<longrightarrow>
        filtered_agent_sequence st
          = Inl (TypeError ''argument of type 'int' is not iterable''))"
proof -
  have ne: "full_agent_sequence \<noteq> []" by (simp add: full_agent_sequence_def)
  show ?thesis
    by (simp add: filtered_agent_sequence_def filter_in_List filter_in_Str filter_in_Dict
        filter_in_Num [OF ne])
qed

lemma those_map_Some:
  "those (map f xs) = Some ys \<Longrightarrow> ys = map (\<lambda>x. the (f x)) xs \<and> (\<forall>x \<in> set xs. f x \<noteq> None)"
  by (induction xs arbitrary: ys) (auto split: option.splits)

lemma fold_max_bounds:
  fixes b :: int
  shows "b \<le> fold max ls b \<and> (\<forall>x \<in> set ls. x \<le> fold max ls b)
       \<and> (fold max ls b = b \<or> fold max ls b \<in> set ls)"
proof (induction ls arbitrary: b)
  case Nil
  then show ?case by simp
next
  case (Cons l ls)
  from Cons.IH [of "max l b"] show ?case
    by (auto simp: max_def split: if_splits)
qed

lemma fold_max_Max:
  fixes ls :: "int list"
  assumes "ls \<noteq> []" and "\<forall>x \<in> set ls. 0 \<le> x"
  shows "fold max ls (- 1) = Max (set ls)"
proof -
  from assms obtain x where x: "x \<in> set ls" "0 \<le> x" by (cases ls) auto
  with fold_max_bounds [of "- 1" ls] have "fold max ls (- 1) \<noteq> - 1" by force
  with fold_max_bounds [of "- 1" ls] have m: "fold max ls (- 1) \<in> set ls" by blast
  show ?thesis
    by (rule Max_eqI [symmetric]) (use m fold_max_bounds [of "- 1" ls] in auto)
qed

lemma get_level_nonneg: "get_level depth ds sq a = Some l \<Longrightarrow> 0 \<le> l"
proof (cases depth)
  case 0
  assume "get_level depth ds sq a = Some l"
  with 0 show ?thesis by simp
next
  case (Suc n)
  assume g: "get_level depth ds sq a = Some l"
  show ?thesis
  proof (cases "(case map_of ds a of None \<Rightarrow> [] | Some x \<Rightarrow> x) = []")
    case True
    with g Suc show ?thesis by (simp add: Let_def)
  next
    case False
    with g Suc obtain ls where "l = fold max ls (- 1) + 1"
      by (auto simp: Let_def split: option.splits)
    with fold_max_bounds [of "- 1" ls] show ?thesis by simp
  qed
qed

lemma get_level_mono_step:
  "get_level n ds sq a = Some l \<Longrightarrow> get_level (Suc n) ds sq a = Some l"
proof (induction n arbitrary: a l)
  case 0
  then show ?case by simp
next
  case (Suc n)
  let ?deps = "case map_of ds a of None \<Rightarrow> [] | Some x \<Rightarrow> x"
  let ?in = "filter (\<lambda>dep. dep \<in> set sq) ?deps"
  show ?case
  proof (cases "?deps = []")
    case True
    with Suc.prems show ?thesis by (simp add: Let_def)
  next
    case False
    with Suc.prems obtain ls where ls: "those (map (get_level n ds sq) ?in) = Some ls"
      and l: "l = fold max ls (- 1) + 1"
      by (auto simp: Let_def split: option.splits)
    from those_map_Some [OF ls] have some: "\<forall>x \<in> set ?in. get_level n ds sq x \<noteq> None"
      by blast
    have "map (get_level (Suc n) ds sq) ?in = map (get_level n ds sq) ?in"
    proof (rule map_cong [OF refl])
      fix x assume "x \<in> set ?in"
      with some obtain l' where l': "get_level n ds sq x = Some l'" by blast
      from Suc.IH [OF l'] l' show "get_level (Suc n) ds sq x = get_level n ds sq x"
        by (simp only:)
    qed
    with ls have th: "those (map (get_level (Suc n) ds sq) ?in) = Some ls" by (simp only:)
    have "get_level (Suc (Suc n)) ds sq a =
        (let deps = ?deps in
         if deps = [] then Some 0
         else (case those (map (get_level (Suc n) ds sq)
                 (filter (\<lambda>dep. dep \<in> set sq) deps)) of
                 None \<Rightarrow> None
               | Some dep_levels \<Rightarrow> Some (fold max dep_levels (- 1) + 1)))"
      by (rule get_level.simps(2))
    also have "\<dots> = Some l"
      using False l th by (simp add: Let_def del: get_level.simps)
    finally show ?thesis .
  qed
qed


lemma get_level_formula:
  assumes "get_level (Suc n) ds sq a = Some l"
  shows "l = (let in_deps = filter (\<lambda>dep. dep \<in> set sq)
                   (case map_of ds a of None \<Rightarrow> [] | Some x \<Rightarrow> x)
              in if in_deps = [] then 0
                 else 1 + Max ((\<lambda>dep. the (get_level (Suc n) ds sq dep)) ` set in_deps))"
proof -
  let ?deps = "case map_of ds a of None \<Rightarrow> [] | Some x \<Rightarrow> x"
  let ?in = "filter (\<lambda>dep. dep \<in> set sq) ?deps"
  show ?thesis
  proof (cases "?deps = []")
    case True
    with assms show ?thesis by (simp add: Let_def)
  next
    case False
    with assms obtain ls where ls: "those (map (get_level n ds sq) ?in) = Some ls"
      and l: "l = fold max ls (- 1) + 1"
      by (auto simp: Let_def split: option.splits)
    from those_map_Some [OF ls]
    have lsm: "ls = map (\<lambda>x. the (get_level n ds sq x)) ?in"
      and some: "\<forall>x \<in> set ?in. get_level n ds sq x \<noteq> None" by blast+
    show ?thesis
    proof (cases "?in = []")
      case True
      with lsm l show ?thesis by (simp add: Let_def del: get_level.simps)
    next
      case nonempty: False
      have same: "\<forall>x \<in> set ?in. the (get_level (Suc n) ds sq x) = the (get_level n ds sq x)"
      proof
        fix x assume "x \<in> set ?in"
        with some obtain l' where l': "get_level n ds sq x = Some l'" by blast
        from get_level_mono_step [OF l'] l'
        show "the (get_level (Suc n) ds sq x) = the (get_level n ds sq x)" by (simp only:)
      qed
      have nn: "\<forall>x \<in> set ls. 0 \<le> x"
      proof
        fix x assume "x \<in> set ls"
        with lsm obtain y where y: "y \<in> set ?in" "x = the (get_level n ds sq y)" by auto
        with some obtain l' where l': "get_level n ds sq y = Some l'" by blast
        from get_level_nonneg [OF l'] y(2) l' show "0 \<le> x" by simp
      qed
      from nonempty lsm have ne: "ls \<noteq> []" by simp
      have "set ls = (\<lambda>dep. the (get_level n ds sq dep)) ` set ?in" using lsm by simp
      also have "\<dots> = (\<lambda>dep. the (get_level (Suc n) ds sq dep)) ` set ?in"
        using same by (intro image_cong refl) (simp only:)
      finally have "Max (set ls) = Max ((\<lambda>dep. the (get_level (Suc n) ds sq dep)) ` set ?in)"
        by (simp only:)
      with fold_max_Max [OF ne nn] l nonempty show ?thesis
        by (simp add: Let_def del: get_level.simps)
    qed
  qed
qed

lemma table_depth:
  "get_level (Suc (Suc (Suc (Suc (Suc d))))) get_agent_dependencies sq a \<noteq> None"
  by (simp add: get_agent_dependencies_def Let_def split: option.splits)

lemma edit_collect_all_succeed:
  "\<forall>a \<in> set as. \<exists>u. run a snapshot = Inr u \<Longrightarrow>
   edit_collect run snapshot as st
     = (foldl (\<lambda>s a. s ++ (case run a snapshot of Inr u \<Rightarrow> u | Inl e \<Rightarrow> Map.empty)) st as, None)"
  by (induction as arbitrary: st) auto

lemma edit_execute_dispatched:
  assumes "agents \<noteq> []" and "get_agent_sequence sess agents \<noteq> []"
  shows "dispatched (edit_execute run order sess agents st) = [get_agent_sequence sess agents]"
  using assms
  by (simp add: edit_execute_def edit_validate_prerequisites_def Let_def split: prod.splits)

lemma edit_execute_all_succeed:
  assumes "agents \<noteq> []" and "get_agent_sequence sess agents \<noteq> []"
    and "\<forall>a \<in> set (order (get_agent_sequence sess agents)). \<exists>u. run a st = Inr u"
  shows "raised (edit_execute run order sess agents st) = None
       \<and> final_state (edit_execute run order sess agents st)
         = foldl (\<lambda>s a. s ++ (case run a st of Inr u \<Rightarrow> u | Inl e \<Rightarrow> Map.empty)) st
             (order (get_agent_sequence sess agents))"
proof -
  have "edit_collect run st (order (get_agent_sequence sess agents)) st
     = (foldl (\<lambda>s a. s ++ (case run a st of Inr u \<Rightarrow> u | Inl e \<Rightarrow> Map.empty)) st
          (order (get_agent_sequence sess agents)), None)"
    using assms(3) by (rule edit_collect_all_succeed)
  with assms(1,2) show ?thesis
    by (simp add: edit_execute_def edit_validate_prerequisites_def Let_def)
qed





section \<open>The closure expander\<close>

text \<open>
  Claim C1.  An edit request that names exactly one task is returned unchanged, with no
  dependent added, by \<open>EditPipeline._expand_with_dependencies\<close> for every dependency table
  and every session (generated before or not), and by
  \<open>MasterAgent.get_sub_agents_to_rerun\<close> when the action is \<open>edit\<close>.
\<close>

theorem C1_single_task_edit_unchanged:
  assumes "length (agents_to_rerun rd) = 1" and "action rd = ''edit''"
  shows "expand_with_dependencies dependencies sess (agents_to_rerun rd) = agents_to_rerun rd
       \<and> get_sub_agents_to_rerun rd sess = agents_to_rerun rd"
  using assms by (auto simp: expand_with_dependencies_def get_sub_agents_to_rerun_def)

text \<open>
  The instance: \<open>scope_refinement\<close>, on which every other content task depends, requested
  alone on a generated document.
\<close>

theorem C1_single_task_edit_unchanged_witness:
  "expand_with_dependencies get_agent_dependencies
       generated_session [''scope_refinement'']
     = [''scope_refinement'']
   \<and> get_sub_agents_to_rerun
       \<lparr>action = ''edit'', agents_to_rerun = [''scope_refinement''],
        extracted = \<lparr>rates = None, budget = None, timeline = None, other_settings = []\<rparr>\<rparr>
       generated_session
     = [''scope_refinement'']"
  using C1_single_task_edit_unchanged
    [of "\<lparr>action = ''edit'', agents_to_rerun = [''scope_refinement''],
          extracted = \<lparr>rates = None, budget = None, timeline = None, other_settings = []\<rparr>\<rparr>"
        get_agent_dependencies "generated_session"]
  by simp

text \<open>
  Claim C3, as stated, fails: the result is not always a closure "from the requested set",
  because a requested task that the literal canonical order does not list is dropped.
  On a generated document \<open>EditPipeline\<close> loses \<open>final_compilation\<close> from the request
  \<open>[scope_refinement, final_compilation]\<close>, and \<open>MasterAgent\<close> loses \<open>title\<close> from
  \<open>[title, scope_refinement]\<close>.
\<close>

theorem C3_dropped_request_counterexample:
  "1 < length [''scope_refinement'', ''final_compilation'']
   \<and> is_proposal_generated generated_session
   \<and> ''final_compilation'' \<notin> set (expand_with_dependencies get_agent_dependencies
          generated_session [''scope_refinement'', ''final_compilation''])
   \<and> ''title'' \<notin> set (master_expand_with_dependencies [''title'', ''scope_refinement''])"
proof -
  have e: "expand_with_dependencies get_agent_dependencies generated_session
        [''scope_refinement'', ''final_compilation'']
      = [''scope_refinement'', ''business_analyst'', ''technical_architect'',
         ''project_manager'', ''resource_allocation'']"
    by (simp add: expand_with_dependencies_def get_agent_dependencies_def agent_order_def
        generated_session_def)
  have m: "master_expand_with_dependencies [''title'', ''scope_refinement'']
      = [''scope_refinement'', ''business_analyst'', ''technical_architect'',
         ''project_manager'', ''resource_allocation'']"
    by (simp add: master_expand_with_dependencies_def master_agent_dependencies_def
        master_agent_order_def)
  show ?thesis unfolding e m by (simp add: generated_session_def)
qed

text \<open>
  Claim C3, amended.  For a request of several tasks on a generated document the result
  \<open>r\<close> of \<open>EditPipeline._expand_with_dependencies\<close> holds exactly the tasks of the literal
  canonical order (the title and the five content tasks) that lie in the forward closure
  of the request, that is, in every set that contains the request and is closed under
  "is a dependent of an included task" for the literal dependency table.  So \<open>r\<close> is
  closed, contains every requested task that the order lists and drops the others, has
  no duplicates, and is the canonical order restricted to its own members.  The same
  holds for \<open>MasterAgent._expand_with_dependencies\<close> with its own table and its own order
  of the five content tasks.
\<close>

theorem C3_multi_task_closure:
  assumes "1 < length primary_agents" and "is_proposal_generated sess"
  shows "agent_order
           = [''title'', ''scope_refinement'', ''business_analyst'', ''technical_architect'',
              ''project_manager'', ''resource_allocation'']
       \<and> get_agent_dependencies
           = [(''scope_refinement'', []),
              (''business_analyst'', [''scope_refinement'']),
              (''technical_architect'', [''scope_refinement'']),
              (''project_manager'',
                 [''scope_refinement'', ''business_analyst'', ''technical_architect'']),
              (''resource_allocation'',
                 [''scope_refinement'', ''business_analyst'', ''technical_architect'',
                  ''project_manager''])]
       \<and> master_agent_order
           = [''scope_refinement'', ''business_analyst'', ''technical_architect'',
              ''project_manager'', ''resource_allocation'']
       \<and> master_agent_dependencies
           = [(''scope_refinement'', []),
              (''business_analyst'', [''scope_refinement'']),
              (''technical_architect'', [''scope_refinement'', ''business_analyst'']),
              (''project_manager'',
                 [''scope_refinement'', ''business_analyst'', ''technical_architect'']),
              (''resource_allocation'',
                 [''scope_refinement'', ''business_analyst'', ''technical_architect'',
                  ''project_manager''])]
       \<and> (let r = expand_with_dependencies get_agent_dependencies sess primary_agents in
            (\<forall>a. a \<in> set r \<longleftrightarrow>
                 a \<in> set agent_order
               \<and> (\<forall>C. closed_under get_agent_dependencies C \<and> set primary_agents \<subseteq> C
                      \<longrightarrow> a \<in> C))
          \<and> closed_under get_agent_dependencies (set r)
          \<and> set primary_agents \<inter> set agent_order \<subseteq> set r
          \<and> (\<forall>C. closed_under get_agent_dependencies C \<and> set primary_agents \<subseteq> C \<longrightarrow> set r \<subseteq> C)
          \<and> distinct r
          \<and> r = filter (\<lambda>a. a \<in> set r) agent_order)
       \<and> (let m = master_expand_with_dependencies primary_agents in
            (\<forall>a. a \<in> set m \<longleftrightarrow>
                 a \<in> set master_agent_order
               \<and> (\<forall>C. closed_under master_agent_dependencies C \<and> set primary_agents \<subseteq> C
                      \<longrightarrow> a \<in> C))
          \<and> closed_under master_agent_dependencies (set m)
          \<and> set primary_agents \<inter> set master_agent_order \<subseteq> set m
          \<and> (\<forall>C. closed_under master_agent_dependencies C \<and> set primary_agents \<subseteq> C \<longrightarrow> set m \<subseteq> C)
          \<and> distinct m
          \<and> m = filter (\<lambda>a. a \<in> set m) master_agent_order)"
proof -
  let ?r = "filter (\<lambda>a. a \<in> bfs_loop get_agent_dependencies (set primary_agents) primary_agents)
              agent_order"
  let ?m = "filter (\<lambda>a. a \<in> bfs_loop master_agent_dependencies (set primary_agents) primary_agents)
              master_agent_order"
  have r: "expand_with_dependencies get_agent_dependencies sess primary_agents = ?r"
    using assms by (simp add: expand_with_dependencies_def)
  have m: "master_expand_with_dependencies primary_agents = ?m"
    by (simp add: master_expand_with_dependencies_def)
  have l1: "agent_order
           = [''title'', ''scope_refinement'', ''business_analyst'', ''technical_architect'',
              ''project_manager'', ''resource_allocation'']"
    by (simp add: agent_order_def)
  have l2: "get_agent_dependencies
           = [(''scope_refinement'', []),
              (''business_analyst'', [''scope_refinement'']),
              (''technical_architect'', [''scope_refinement'']),
              (''project_manager'',
                 [''scope_refinement'', ''business_analyst'', ''technical_architect'']),
              (''resource_allocation'',
                 [''scope_refinement'', ''business_analyst'', ''technical_architect'',
                  ''project_manager''])]"
    by (simp add: get_agent_dependencies_def)
  have l3: "master_agent_order
           = [''scope_refinement'', ''business_analyst'', ''technical_architect'',
              ''project_manager'', ''resource_allocation'']"
    by (simp add: master_agent_order_def)
  have l4: "master_agent_dependencies
           = [(''scope_refinement'', []),
              (''business_analyst'', [''scope_refinement'']),
              (''technical_architect'', [''scope_refinement'', ''business_analyst'']),
              (''project_manager'',
                 [''scope_refinement'', ''business_analyst'', ''technical_architect'']),
              (''resource_allocation'',
                 [''scope_refinement'', ''business_analyst'', ''technical_architect'',
                  ''project_manager''])]"
    by (simp add: master_agent_dependencies_def)
  have r0: "\<forall>a. a \<in> set ?r \<longleftrightarrow>
                 a \<in> set agent_order
               \<and> (\<forall>C. closed_under get_agent_dependencies C \<and> set primary_agents \<subseteq> C
                      \<longrightarrow> a \<in> C)"
    by (rule filter_closure_exact)
  have r1: "closed_under get_agent_dependencies (set ?r)"
    by (rule filter_closure_closed [OF table_keys_in_order])
  have r2: "set primary_agents \<inter> set agent_order \<subseteq> set ?r"
    by (rule filter_closure_requested)
  have r3: "\<forall>C. closed_under get_agent_dependencies C \<and> set primary_agents \<subseteq> C \<longrightarrow> set ?r \<subseteq> C"
    using filter_closure_least by blast
  have r4: "distinct ?r" using distinct_agent_order by simp
  have r5: "?r = filter (\<lambda>a. a \<in> set ?r) agent_order" by (rule filter_self [symmetric])
  have m0: "\<forall>a. a \<in> set ?m \<longleftrightarrow>
                 a \<in> set master_agent_order
               \<and> (\<forall>C. closed_under master_agent_dependencies C \<and> set primary_agents \<subseteq> C
                      \<longrightarrow> a \<in> C)"
    by (rule filter_closure_exact)
  have m1: "closed_under master_agent_dependencies (set ?m)"
    by (rule filter_closure_closed [OF master_keys_in_order])
  have m2: "set primary_agents \<inter> set master_agent_order \<subseteq> set ?m"
    by (rule filter_closure_requested)
  have m3: "\<forall>C. closed_under master_agent_dependencies C \<and> set primary_agents \<subseteq> C \<longrightarrow> set ?m \<subseteq> C"
    using filter_closure_least by blast
  have m4: "distinct ?m" using distinct_master_agent_order by simp
  have m5: "?m = filter (\<lambda>a. a \<in> set ?m) master_agent_order" by (rule filter_self [symmetric])
  have R: "let r = expand_with_dependencies get_agent_dependencies sess primary_agents in
            (\<forall>a. a \<in> set r \<longleftrightarrow>
                 a \<in> set agent_order
               \<and> (\<forall>C. closed_under get_agent_dependencies C \<and> set primary_agents \<subseteq> C
                      \<longrightarrow> a \<in> C))
          \<and> closed_under get_agent_dependencies (set r)
          \<and> set primary_agents \<inter> set agent_order \<subseteq> set r
          \<and> (\<forall>C. closed_under get_agent_dependencies C \<and> set primary_agents \<subseteq> C \<longrightarrow> set r \<subseteq> C)
          \<and> distinct r
          \<and> r = filter (\<lambda>a. a \<in> set r) agent_order"
    unfolding r Let_def using r0 r1 r2 r3 r4 r5 by (intro conjI)
  have M: "let m = master_expand_with_dependencies primary_agents in
            (\<forall>a. a \<in> set m \<longleftrightarrow>
                 a \<in> set master_agent_order
               \<and> (\<forall>C. closed_under master_agent_dependencies C \<and> set primary_agents \<subseteq> C
                      \<longrightarrow> a \<in> C))
          \<and> closed_under master_agent_dependencies (set m)
          \<and> set primary_agents \<inter> set master_agent_order \<subseteq> set m
          \<and> (\<forall>C. closed_under master_agent_dependencies C \<and> set primary_agents \<subseteq> C \<longrightarrow> set m \<subseteq> C)
          \<and> distinct m
          \<and> m = filter (\<lambda>a. a \<in> set m) master_agent_order"
    unfolding m Let_def using m0 m1 m2 m3 m4 m5 by (intro conjI)
  show ?thesis by (intro conjI) (rule l1 l2 l3 l4 R M)+
qed

text \<open>
  The instance: the request lists \<open>technical_architect\<close> before \<open>business_analyst\<close>; both
  expanders add the dependents and return the result in the canonical order.
\<close>

theorem C3_multi_task_closure_witness:
  "expand_with_dependencies get_agent_dependencies generated_session
       [''technical_architect'', ''business_analyst'']
     = [''business_analyst'', ''technical_architect'', ''project_manager'',
        ''resource_allocation'']
   \<and> closed_under get_agent_dependencies
        (set (expand_with_dependencies get_agent_dependencies generated_session
           [''technical_architect'', ''business_analyst'']))
   \<and> distinct (expand_with_dependencies get_agent_dependencies generated_session
           [''technical_architect'', ''business_analyst''])
   \<and> master_expand_with_dependencies [''technical_architect'', ''business_analyst'']
     = [''business_analyst'', ''technical_architect'', ''project_manager'',
        ''resource_allocation'']
   \<and> closed_under master_agent_dependencies
        (set (master_expand_with_dependencies [''technical_architect'', ''business_analyst'']))
   \<and> distinct (master_expand_with_dependencies [''technical_architect'', ''business_analyst''])"
proof -
  have e: "expand_with_dependencies get_agent_dependencies generated_session
       [''technical_architect'', ''business_analyst'']
     = [''business_analyst'', ''technical_architect'', ''project_manager'',
        ''resource_allocation'']"
    by (simp add: expand_with_dependencies_def get_agent_dependencies_def agent_order_def
        generated_session_def)
  have me: "master_expand_with_dependencies [''technical_architect'', ''business_analyst'']
     = [''business_analyst'', ''technical_architect'', ''project_manager'',
        ''resource_allocation'']"
    by (simp add: master_expand_with_dependencies_def master_agent_dependencies_def
        master_agent_order_def)
  have len: "1 < length [''technical_architect'', ''business_analyst'']" by simp
  have gen: "is_proposal_generated generated_session"
    by (simp add: generated_session_def)
  note c = C3_multi_task_closure [OF len gen, unfolded Let_def]
  note cr = c [THEN conjunct2, THEN conjunct2, THEN conjunct2, THEN conjunct2, THEN conjunct1]
  note cm = c [THEN conjunct2, THEN conjunct2, THEN conjunct2, THEN conjunct2, THEN conjunct2]
  note a = cr [THEN conjunct2, THEN conjunct1]
  note b = cr [THEN conjunct2, THEN conjunct2, THEN conjunct2, THEN conjunct2, THEN conjunct1]
  note a' = cm [THEN conjunct2, THEN conjunct1]
  note b' = cm [THEN conjunct2, THEN conjunct2, THEN conjunct2, THEN conjunct2, THEN conjunct1]
  show ?thesis
    by (intro conjI) (rule e a b me a' b')+
qed

text \<open>
  Claim C4.  \<open>MasterAgent._expand_with_dependencies\<close>, whose table declares
  \<open>technical_architect\<close>, \<open>project_manager\<close> and \<open>resource_allocation\<close> downstream of
  \<open>business_analyst\<close>, returns the four tasks in canonical order for the request
  \<open>[business_analyst]\<close>, whatever the session; \<open>get_sub_agents_to_rerun\<close> passes that result on
  whenever the action is not \<open>edit\<close>.
\<close>

theorem C4_business_analyst_expansion:
  "master_expand_with_dependencies [''business_analyst'']
     = [''business_analyst'', ''technical_architect'', ''project_manager'',
        ''resource_allocation'']
   \<and> (\<exists>deps. map_of master_agent_dependencies ''technical_architect'' = Some deps
          \<and> ''business_analyst'' \<in> set deps)
   \<and> (\<exists>deps. map_of master_agent_dependencies ''project_manager'' = Some deps
          \<and> ''business_analyst'' \<in> set deps)
   \<and> (\<exists>deps. map_of master_agent_dependencies ''resource_allocation'' = Some deps
          \<and> ''business_analyst'' \<in> set deps)
   \<and> (agents_to_rerun rd = [''business_analyst''] \<and> action rd \<noteq> ''edit''
        \<longrightarrow> get_sub_agents_to_rerun rd sess
            = [''business_analyst'', ''technical_architect'', ''project_manager'',
               ''resource_allocation''])"
proof -
  have m: "master_expand_with_dependencies [''business_analyst'']
     = [''business_analyst'', ''technical_architect'', ''project_manager'',
        ''resource_allocation'']"
    by (simp add: master_expand_with_dependencies_def master_agent_dependencies_def
        master_agent_order_def)
  have d1: "\<exists>deps. map_of master_agent_dependencies ''technical_architect'' = Some deps
          \<and> ''business_analyst'' \<in> set deps"
    by (simp add: master_agent_dependencies_def)
  have d2: "\<exists>deps. map_of master_agent_dependencies ''project_manager'' = Some deps
          \<and> ''business_analyst'' \<in> set deps"
    by (simp add: master_agent_dependencies_def)
  have d3: "\<exists>deps. map_of master_agent_dependencies ''resource_allocation'' = Some deps
          \<and> ''business_analyst'' \<in> set deps"
    by (simp add: master_agent_dependencies_def)
  have g: "agents_to_rerun rd = [''business_analyst''] \<and> action rd \<noteq> ''edit''
        \<longrightarrow> get_sub_agents_to_rerun rd sess
            = [''business_analyst'', ''technical_architect'', ''project_manager'',
               ''resource_allocation'']"
    using m by (simp add: get_sub_agents_to_rerun_def)
  show ?thesis by (intro conjI) (rule m d1 d2 d3 g)+
qed

text \<open>The instance: a decision to generate, on a generated document.\<close>

theorem C4_business_analyst_expansion_witness:
  "get_sub_agents_to_rerun
       \<lparr>action = ''generate_proposal'', agents_to_rerun = [''business_analyst''],
        extracted = \<lparr>rates = None, budget = None, timeline = None, other_settings = []\<rparr>\<rparr>
       generated_session
     = [''business_analyst'', ''technical_architect'', ''project_manager'',
        ''resource_allocation'']"
proof -
  let ?rd = "\<lparr>action = ''generate_proposal'', agents_to_rerun = [''business_analyst''],
        extracted = \<lparr>rates = None, budget = None, timeline = None, other_settings = []\<rparr>\<rparr>"
  have h: "agents_to_rerun ?rd = [''business_analyst''] \<and> action ?rd \<noteq> ''edit''" by simp
  note c = C4_business_analyst_expansion [of ?rd generated_session]
  show ?thesis
    by (rule c [THEN conjunct2, THEN conjunct2, THEN conjunct2, THEN conjunct2, THEN mp, OF h])
qed

section \<open>Settings and constraint propagation\<close>








section \<open>The compile task\<close>

text \<open>
  Claim C6.  When some required component is missing the compile task returns (it does
  not raise) the input state with \<open>current_stage\<close> set to \<open>failed\<close> and \<open>error\<close> set to
  \<open>Missing required components:\<close> followed by the display names of the missing
  components, in the order of the table and separated by a comma and a space.  The
  missing components are exactly the entries of the table whose key is missing.  A key is
  missing when it is absent, when it holds \<open>None\<close>, zero, an empty list or an empty
  dictionary, and, for a string, exactly when every character is white space (so also
  for the empty string); the white space characters are listed.  When no component is
  missing and no required key holds a number, the task returns the state with
  \<open>current_stage\<close> set to \<open>completed\<close> and \<open>final_proposal\<close> set to the dictionary of the
  title, the idea, the similar products and the five required components.
\<close>

theorem C6_compile_validation:
  "(missing_components st = n # ns \<longrightarrow>
      final_compilation_agent st
        = Inr (st(''current_stage'' \<mapsto> Str (codes ''failed''),
                 ''error'' \<mapsto> Str (codes (''Missing required components: ''
                                    @ n @ concat (map (\<lambda>y. '', '' @ y) ns))))))
   \<and> missing_components st
       = map snd (filter (\<lambda>(key, name). is_missing st key)
           [(''refined_scope'', ''refined scope''),
            (''business_analysis'', ''business analysis''),
            (''technical_spec'', ''technical specification''),
            (''project_plan'', ''project plan''),
            (''resource_plan'', ''resource plan'')])
   \<and> (st key = None \<longrightarrow> is_missing st key)
   \<and> (st key = Some (Str s) \<longrightarrow>
        (is_missing st key \<longleftrightarrow>
           (\<forall>c \<in> set s.
              c \<in> {9, 10, 11, 12, 13, 28, 29, 30, 31, 32, 133, 160, 5760,
                   8192, 8193, 8194, 8195, 8196, 8197, 8198, 8199, 8200, 8201, 8202,
                   8232, 8233, 8239, 8287, 12288})))
   \<and> (st key = Some (Num i) \<longrightarrow> (is_missing st key \<longleftrightarrow> i = 0))
   \<and> (st key = Some NoneVal \<longrightarrow> is_missing st key)
   \<and> (st key = Some (List xs) \<longrightarrow> (is_missing st key \<longleftrightarrow> xs = []))
   \<and> (st key = Some (Dict kvs) \<longrightarrow> (is_missing st key \<longleftrightarrow> kvs = []))
   \<and> (missing_components st = []
       \<and> (\<forall>k \<in> fst ` set required_components. \<forall>j. st k \<noteq> Some (Num j)) \<longrightarrow>
        final_compilation_agent st
          = Inr (st(''final_proposal'' \<mapsto> Dict
                   [(''title'', state_get st ''proposal_title'' (Str (codes ''Project Proposal''))),
                    (''initial_idea'', state_get st ''initial_idea'' (Str [])),
                    (''similar_products'', state_get st ''similar_products'' (Str [])),
                    (''refined_scope'', state_get st ''refined_scope'' (Str [])),
                    (''business_analysis'', state_get st ''business_analysis'' (Str [])),
                    (''technical_spec'', state_get st ''technical_spec'' (Str [])),
                    (''project_plan'', state_get st ''project_plan'' (Str [])),
                    (''resource_plan'', state_get st ''resource_plan'' (Str []))],
                ''current_stage'' \<mapsto> Str (codes ''completed''))))"
proof -
  note m = is_missing_cases [of st key s i xs kvs]
  have c1: "missing_components st = n # ns \<longrightarrow>
      final_compilation_agent st
        = Inr (st(''current_stage'' \<mapsto> Str (codes ''failed''),
                 ''error'' \<mapsto> Str (codes (''Missing required components: ''
                                    @ n @ concat (map (\<lambda>y. '', '' @ y) ns)))))"
    by (rule impI) (rule compile_failure_explicit)
  have c2: "missing_components st
       = map snd (filter (\<lambda>(key, name). is_missing st key)
           [(''refined_scope'', ''refined scope''),
            (''business_analysis'', ''business analysis''),
            (''technical_spec'', ''technical specification''),
            (''project_plan'', ''project plan''),
            (''resource_plan'', ''resource plan'')])"
    by (rule missing_components_literal)
  have c3: "st key = None \<longrightarrow> is_missing st key" by (rule m [THEN conjunct1])
  have c4: "st key = Some (Str s) \<longrightarrow>
        (is_missing st key \<longleftrightarrow>
           (\<forall>c \<in> set s.
              c \<in> {9, 10, 11, 12, 13, 28, 29, 30, 31, 32, 133, 160, 5760,
                   8192, 8193, 8194, 8195, 8196, 8197, 8198, 8199, 8200, 8201, 8202,
                   8232, 8233, 8239, 8287, 12288}))"
    using m [THEN conjunct2, THEN conjunct1] unfolding is_space_iff .
  have c5: "st key = Some (Num i) \<longrightarrow> (is_missing st key \<longleftrightarrow> i = 0)"
    by (rule m [THEN conjunct2, THEN conjunct2, THEN conjunct1])
  have c6: "st key = Some NoneVal \<longrightarrow> is_missing st key"
    by (rule m [THEN conjunct2, THEN conjunct2, THEN conjunct2, THEN conjunct1])
  have c7: "st key = Some (List xs) \<longrightarrow> (is_missing st key \<longleftrightarrow> xs = [])"
    by (rule m [THEN conjunct2, THEN conjunct2, THEN conjunct2, THEN conjunct2, THEN conjunct1])
  have c8: "st key = Some (Dict kvs) \<longrightarrow> (is_missing st key \<longleftrightarrow> kvs = [])"
    by (rule m [THEN conjunct2, THEN conjunct2, THEN conjunct2, THEN conjunct2, THEN conjunct2])
  have c9: "missing_components st = []
       \<and> (\<forall>k \<in> fst ` set required_components. \<forall>j. st k \<noteq> Some (Num j)) \<longrightarrow>
        final_compilation_agent st
          = Inr (st(''final_proposal'' \<mapsto> Dict
                   [(''title'', state_get st ''proposal_title'' (Str (codes ''Project Proposal''))),
                    (''initial_idea'', state_get st ''initial_idea'' (Str [])),
                    (''similar_products'', state_get st ''similar_products'' (Str [])),
                    (''refined_scope'', state_get st ''refined_scope'' (Str [])),
                    (''business_analysis'', state_get st ''business_analysis'' (Str [])),
                    (''technical_spec'', state_get st ''technical_spec'' (Str [])),
                    (''project_plan'', state_get st ''project_plan'' (Str [])),
                    (''resource_plan'', state_get st ''resource_plan'' (Str []))],
                ''current_stage'' \<mapsto> Str (codes ''completed'')))"
    using compile_success_general [of st] by blast
  show ?thesis
    by (intro conjI) (rule c1 c2 c3 c4 c5 c6 c7 c8 c9)+
qed

text \<open>
  The instances: a blank business analysis and no resource plan give the message that
  names these two; the first example state, given a resource plan, is compiled.
\<close>

theorem C6_compile_validation_witness:
  "final_compilation_agent st_two_missing
     = Inr (st_two_missing
             (''current_stage'' \<mapsto> Str (codes ''failed''),
              ''error'' \<mapsto> Str (codes
                 ''Missing required components: business analysis, resource plan'')))
   \<and> (\<exists>out. final_compilation_agent
               (st_missing_resource_plan(''resource_plan'' \<mapsto> Str (codes ''Team of 4''))) = Inr out
         \<and> out ''current_stage'' = Some (Str (codes ''completed'')))"
proof -
  have m: "missing_components st_two_missing = [''business analysis'', ''resource plan'']"
    by (simp add: missing_components_def required_components_def is_missing_def state_get_def
        st_two_missing_def strip_def is_space_def codes_def)
  have "final_compilation_agent st_two_missing
     = Inr (st_two_missing
             (''current_stage'' \<mapsto> Str (codes ''failed''),
              ''error'' \<mapsto> Str (codes (''Missing required components: ''
                 @ ''business analysis'' @ concat (map (\<lambda>y. '', '' @ y) [''resource plan''])))))"
    by (rule C6_compile_validation [THEN conjunct1, THEN mp, OF m])
  then have 1: "final_compilation_agent st_two_missing
     = Inr (st_two_missing
             (''current_stage'' \<mapsto> Str (codes ''failed''),
              ''error'' \<mapsto> Str (codes
                 ''Missing required components: business analysis, resource plan'')))"
    by simp
  let ?st = "st_missing_resource_plan(''resource_plan'' \<mapsto> Str (codes ''Team of 4''))"
  have h: "missing_components ?st = []
       \<and> (\<forall>k \<in> fst ` set required_components. \<forall>j. ?st k \<noteq> Some (Num j))"
    by (simp add: missing_components_def required_components_def is_missing_def state_get_def
        st_missing_resource_plan_def strip_def is_space_def codes_def)
  note c = C6_compile_validation [of ?st]
  note s = c [THEN conjunct2, THEN conjunct2, THEN conjunct2, THEN conjunct2, THEN conjunct2,
      THEN conjunct2, THEN conjunct2, THEN conjunct2, THEN mp, OF h]
  have 2: "\<exists>out. final_compilation_agent ?st = Inr out
         \<and> out ''current_stage'' = Some (Str (codes ''completed''))"
    unfolding s by (rule exI, rule conjI, rule refl) simp
  from 1 2 show ?thesis by (rule conjI)
qed

text \<open>
  Claim C10.  A state returned by the compile task agrees with its input on every key
  other than \<open>current_stage\<close>, \<open>error\<close> and \<open>final_proposal\<close>.  On the failure branch the
  task returns, and \<open>final_proposal\<close> is untouched as well; on the success branch
  \<open>error\<close> is untouched.  The task returns for every state except those where no
  component is missing and a required key holds a number, for which \<open>len\<close> raises.
\<close>

theorem C10_compile_frame:
  "(\<forall>out. final_compilation_agent st = Inr out \<longrightarrow>
      (\<forall>k. k \<notin> {''current_stage'', ''error'', ''final_proposal''} \<longrightarrow> out k = st k))
   \<and> (missing_components st \<noteq> [] \<longrightarrow>
      (\<exists>out. final_compilation_agent st = Inr out
         \<and> out ''final_proposal'' = st ''final_proposal''
         \<and> (\<forall>k. k \<notin> {''current_stage'', ''error''} \<longrightarrow> out k = st k)))
   \<and> (missing_components st = [] \<longrightarrow>
      (\<forall>out. final_compilation_agent st = Inr out \<longrightarrow>
         (\<forall>k. k \<notin> {''current_stage'', ''final_proposal''} \<longrightarrow> out k = st k)))
   \<and> ((\<exists>out. final_compilation_agent st = Inr out)
      \<longleftrightarrow> (missing_components st \<noteq> []
           \<or> (\<forall>key \<in> fst ` set required_components. \<forall>n. st key \<noteq> Some (Num n))))"
proof (intro conjI)
  show "\<forall>out. final_compilation_agent st = Inr out \<longrightarrow>
      (\<forall>k. k \<notin> {''current_stage'', ''error'', ''final_proposal''} \<longrightarrow> out k = st k)"
  proof (intro allI impI)
    fix out k
    assume o: "final_compilation_agent st = Inr out"
      and k: "k \<notin> {''current_stage'', ''error'', ''final_proposal''}"
    show "out k = st k"
    proof (cases "missing_components st = []")
      case True
      from compile_success_shape [OF True o] k show ?thesis by auto
    next
      case False
      from compile_failure [OF False] o k show ?thesis by auto
    qed
  qed
  show "missing_components st \<noteq> [] \<longrightarrow>
      (\<exists>out. final_compilation_agent st = Inr out
         \<and> out ''final_proposal'' = st ''final_proposal''
         \<and> (\<forall>k. k \<notin> {''current_stage'', ''error''} \<longrightarrow> out k = st k))"
    by (simp add: compile_failure)
  show "missing_components st = [] \<longrightarrow>
      (\<forall>out. final_compilation_agent st = Inr out \<longrightarrow>
         (\<forall>k. k \<notin> {''current_stage'', ''final_proposal''} \<longrightarrow> out k = st k))"
  proof (intro allI impI)
    fix out k
    assume m: "missing_components st = []" and o: "final_compilation_agent st = Inr out"
      and k: "k \<notin> {''current_stage'', ''final_proposal''}"
    from compile_success_shape [OF m o] k show "out k = st k" by auto
  qed
  have "(\<exists>out. final_compilation_agent st = Inr out) \<longleftrightarrow> \<not> (\<exists>e. final_compilation_agent st = Inl e)"
    by (cases "final_compilation_agent st") auto
  then show "(\<exists>out. final_compilation_agent st = Inr out)
      \<longleftrightarrow> (missing_components st \<noteq> []
           \<or> (\<forall>key \<in> fst ` set required_components. \<forall>n. st key \<noteq> Some (Num n)))"
    unfolding compile_raises_iff by blast
qed

text \<open>The instance: the failed compilation of the state above keeps the project plan.\<close>

theorem C10_compile_frame_witness:
  "(\<exists>out. final_compilation_agent st_missing_resource_plan = Inr out
      \<and> out ''final_proposal'' = None
      \<and> out ''project_plan'' = Some (Str (codes ''3 phases, milestones and hours'')))"
proof -
  have m: "missing_components st_missing_resource_plan \<noteq> []"
    by (simp add: missing_components_def required_components_def is_missing_def state_get_def
        st_missing_resource_plan_def strip_def is_space_def)
  note c = C10_compile_frame [of st_missing_resource_plan]
  have "\<exists>out. final_compilation_agent st_missing_resource_plan = Inr out
         \<and> out ''final_proposal'' = st_missing_resource_plan ''final_proposal''
         \<and> (\<forall>k. k \<notin> {''current_stage'', ''error''} \<longrightarrow> out k = st_missing_resource_plan k)"
    by (rule c [THEN conjunct2, THEN conjunct1, THEN mp, OF m])
  then obtain out where all: "final_compilation_agent st_missing_resource_plan = Inr out
         \<and> out ''final_proposal'' = st_missing_resource_plan ''final_proposal''
         \<and> (\<forall>k. k \<notin> {''current_stage'', ''error''} \<longrightarrow> out k = st_missing_resource_plan k)" ..
  note o = all [THEN conjunct1]
  note fp = all [THEN conjunct2, THEN conjunct1]
  note fr = all [THEN conjunct2, THEN conjunct2, rule_format]
  have "''project_plan'' \<notin> {''current_stage'', ''error''}" by simp
  then have pp: "out ''project_plan'' = st_missing_resource_plan ''project_plan''" by (rule fr)
  have n: "st_missing_resource_plan ''final_proposal'' = None"
    by (simp add: st_missing_resource_plan_def)
  have s: "st_missing_resource_plan ''project_plan''
      = Some (Str (codes ''3 phases, milestones and hours''))"
    by (simp add: st_missing_resource_plan_def)
  show ?thesis
    by (rule exI [of _ out]) (simp only: o fp pp n s simp_thms)
qed

section \<open>Level planning and execution\<close>

text \<open>
  Claim C5, as stated, fails for the empty filter: \<open>if enabled_agents:\<close> is false for an
  empty list, so nothing is filtered and the groups still hold tasks that are not in the
  (empty) enabled set.
\<close>

theorem C5_empty_filter_counterexample:
  "\<not> (\<forall>xs agent_sequence.
        filtered_agent_sequence [''enabled_agents'' \<mapsto> List xs] = Inr agent_sequence
        \<longrightarrow> (\<forall>g \<in> set (filtered_parallel_groups agent_sequence).
               \<forall>a \<in> set g. Str (codes a) \<in> set xs))"
proof
  assume a: "\<forall>xs agent_sequence.
        filtered_agent_sequence [''enabled_agents'' \<mapsto> List xs] = Inr agent_sequence
        \<longrightarrow> (\<forall>g \<in> set (filtered_parallel_groups agent_sequence).
               \<forall>a \<in> set g. Str (codes a) \<in> set xs)"
  have s: "filtered_agent_sequence [''enabled_agents'' \<mapsto> List []] = Inr full_agent_sequence"
    by (simp add: filtered_agent_sequence_def)
  have m: "[''title''] \<in> set (filtered_parallel_groups full_agent_sequence)"
    by (simp add: filtered_groups_unfiltered get_parallel_groups_def)
  from a [rule_format, OF s m, of "''title''"]
  have "Str (codes ''title'') \<in> set ([] :: pyval list)" by simp
  then show False by simp
qed

text \<open>
  Claim C5, amended.  The static plan is the three levels \<open>[title]\<close>, the five content
  tasks, \<open>[final_compilation]\<close>.  For a non-empty list of enabled tasks every task outside
  the list is removed from its level and a level that becomes empty is dropped, the order
  of the remaining levels being kept; an absent key, \<open>None\<close>, an empty list and every
  other false value leave the three levels as they are.  (A non-empty string filters by
  the substring test, a non-empty dictionary by its keys, and a number that is not zero
  makes \<open>execute\<close> raise \<open>TypeError\<close> before anything is dispatched.)  The groups submitted
  by \<open>execute\<close> are an initial segment of the planned levels, and all of them when no
  exception leaves the call.
\<close>

theorem C5_static_levels:
  "get_parallel_groups
     = [[''title''],
        [''scope_refinement'', ''business_analyst'', ''technical_architect'',
         ''project_manager'', ''resource_allocation''],
        [''final_compilation'']]
   \<and> full_agent_sequence
     = [''title'', ''scope_refinement'', ''business_analyst'', ''technical_architect'',
        ''project_manager'', ''resource_allocation'', ''final_compilation'']
   \<and> (st ''enabled_agents'' = Some (List xs) \<and> xs \<noteq> [] \<longrightarrow>
        filtered_agent_sequence st
          = Inr (filter (\<lambda>a. Str (codes a) \<in> set xs) full_agent_sequence)
        \<and> filtered_parallel_groups (filter (\<lambda>a. Str (codes a) \<in> set xs) full_agent_sequence)
          = filter (\<lambda>g. g \<noteq> [])
              (map (filter (\<lambda>a. Str (codes a) \<in> set xs)) get_parallel_groups))
   \<and> (st ''enabled_agents'' = None \<longrightarrow> filtered_agent_sequence st = Inr full_agent_sequence)
   \<and> (st ''enabled_agents'' = Some v \<and> \<not> truthy v \<longrightarrow>
        filtered_agent_sequence st = Inr full_agent_sequence)
   \<and> filtered_parallel_groups full_agent_sequence = get_parallel_groups
   \<and> (st ''enabled_agents'' = Some (Str s) \<and> s \<noteq> [] \<longrightarrow>
        filtered_agent_sequence st
          = Inr (filter (\<lambda>a. is_substring (codes a) s) full_agent_sequence))
   \<and> (st ''enabled_agents'' = Some (Dict kvs) \<and> kvs \<noteq> [] \<longrightarrow>
        filtered_agent_sequence st
          = Inr (filter (\<lambda>a. a \<in> set (map fst kvs)) full_agent_sequence))
   \<and> (st ''enabled_agents'' = Some (Num i) \<and> i \<noteq> 0 \<longrightarrow>
        filtered_agent_sequence st
          = Inl (TypeError ''argument of type 'int' is not iterable''))
   \<and> (filtered_agent_sequence st = Inr agent_sequence \<longrightarrow>
        (\<exists>rest. filtered_parallel_groups agent_sequence
           = dispatched (full_execute run order sess st) @ rest)
        \<and> (raised (full_execute run order sess st) = None \<longrightarrow>
             dispatched (full_execute run order sess st)
               = filtered_parallel_groups agent_sequence))
   \<and> (filtered_agent_sequence st = Inl e \<longrightarrow>
        full_execute run order sess st
          = \<lparr>dispatched = [], final_state = st, final_session = sess, raised = Some e\<rparr>)"
proof -
  note f = filtered_sequence_cases [of st v xs s kvs i]
  have c1: "get_parallel_groups
     = [[''title''],
        [''scope_refinement'', ''business_analyst'', ''technical_architect'',
         ''project_manager'', ''resource_allocation''],
        [''final_compilation'']]"
    by (simp add: get_parallel_groups_def)
  have c2: "full_agent_sequence
     = [''title'', ''scope_refinement'', ''business_analyst'', ''technical_architect'',
        ''project_manager'', ''resource_allocation'', ''final_compilation'']"
    by (simp add: full_agent_sequence_def)
  have c3: "st ''enabled_agents'' = Some (List xs) \<and> xs \<noteq> [] \<longrightarrow>
        filtered_agent_sequence st
          = Inr (filter (\<lambda>a. Str (codes a) \<in> set xs) full_agent_sequence)
        \<and> filtered_parallel_groups (filter (\<lambda>a. Str (codes a) \<in> set xs) full_agent_sequence)
          = filter (\<lambda>g. g \<noteq> [])
              (map (filter (\<lambda>a. Str (codes a) \<in> set xs)) get_parallel_groups)"
  proof (intro impI conjI)
    assume h: "st ''enabled_agents'' = Some (List xs) \<and> xs \<noteq> []"
    from f [THEN conjunct2, THEN conjunct2, THEN conjunct1] h
    show "filtered_agent_sequence st
          = Inr (filter (\<lambda>a. Str (codes a) \<in> set xs) full_agent_sequence)" by (rule mp)
    show "filtered_parallel_groups (filter (\<lambda>a. Str (codes a) \<in> set xs) full_agent_sequence)
          = filter (\<lambda>g. g \<noteq> [])
              (map (filter (\<lambda>a. Str (codes a) \<in> set xs)) get_parallel_groups)"
      by (rule filtered_groups_of_filter)
  qed
  have c4: "st ''enabled_agents'' = None \<longrightarrow> filtered_agent_sequence st = Inr full_agent_sequence"
    by (rule f [THEN conjunct1])
  have c5: "st ''enabled_agents'' = Some v \<and> \<not> truthy v \<longrightarrow>
        filtered_agent_sequence st = Inr full_agent_sequence"
    by (rule f [THEN conjunct2, THEN conjunct1])
  have c6: "filtered_parallel_groups full_agent_sequence = get_parallel_groups"
    by (rule filtered_groups_unfiltered)
  have c7: "st ''enabled_agents'' = Some (Str s) \<and> s \<noteq> [] \<longrightarrow>
        filtered_agent_sequence st
          = Inr (filter (\<lambda>a. is_substring (codes a) s) full_agent_sequence)"
    by (rule f [THEN conjunct2, THEN conjunct2, THEN conjunct2, THEN conjunct1])
  have c8: "st ''enabled_agents'' = Some (Dict kvs) \<and> kvs \<noteq> [] \<longrightarrow>
        filtered_agent_sequence st
          = Inr (filter (\<lambda>a. a \<in> set (map fst kvs)) full_agent_sequence)"
    by (rule f [THEN conjunct2, THEN conjunct2, THEN conjunct2, THEN conjunct2, THEN conjunct1])
  have c9: "st ''enabled_agents'' = Some (Num i) \<and> i \<noteq> 0 \<longrightarrow>
        filtered_agent_sequence st
          = Inl (TypeError ''argument of type 'int' is not iterable'')"
    by (rule f [THEN conjunct2, THEN conjunct2, THEN conjunct2, THEN conjunct2, THEN conjunct2])
  have c10: "filtered_agent_sequence st = Inr agent_sequence \<longrightarrow>
        (\<exists>rest. filtered_parallel_groups agent_sequence
           = dispatched (full_execute run order sess st) @ rest)
        \<and> (raised (full_execute run order sess st) = None \<longrightarrow>
             dispatched (full_execute run order sess st)
               = filtered_parallel_groups agent_sequence)"
  proof
    assume h: "filtered_agent_sequence st = Inr agent_sequence"
    from full_execute_dispatched [OF h, of run order sess]
    obtain rest where r: "filtered_parallel_groups agent_sequence
            = dispatched (full_execute run order sess st) @ rest"
      and n: "raised (full_execute run order sess st) = None \<longrightarrow> rest = []"
      by (elim exE conjE)
    have 1: "\<exists>rest. filtered_parallel_groups agent_sequence
           = dispatched (full_execute run order sess st) @ rest"
      using r by (rule exI)
    have 2: "raised (full_execute run order sess st) = None \<longrightarrow>
             dispatched (full_execute run order sess st)
               = filtered_parallel_groups agent_sequence"
      using r n by simp
    from 1 2 show "(\<exists>rest. filtered_parallel_groups agent_sequence
           = dispatched (full_execute run order sess st) @ rest)
        \<and> (raised (full_execute run order sess st) = None \<longrightarrow>
             dispatched (full_execute run order sess st)
               = filtered_parallel_groups agent_sequence)" by (rule conjI)
  qed
  have c11: "filtered_agent_sequence st = Inl e \<longrightarrow>
        full_execute run order sess st
          = \<lparr>dispatched = [], final_state = st, final_session = sess, raised = Some e\<rparr>"
    by (rule impI) (rule full_execute_filter_raises)
  show ?thesis
    by (rule conjI, rule c1, rule conjI, rule c2, rule conjI, rule c3, rule conjI, rule c4,
        rule conjI, rule c5, rule conjI, rule c6, rule conjI, rule c7, rule conjI, rule c8,
        rule conjI, rule c9, rule conjI, rule c10, rule c11)
qed

text \<open>The instance: only the compile task and the title enabled; the middle level is dropped.\<close>

theorem C5_static_levels_witness:
  "filtered_agent_sequence
       [''enabled_agents'' \<mapsto> List [Str (codes ''final_compilation''), Str (codes ''title'')]]
     = Inr [''title'', ''final_compilation'']
   \<and> filtered_parallel_groups [''title'', ''final_compilation'']
     = [[''title''], [''final_compilation'']]"
proof -
  let ?xs = "[Str (codes ''final_compilation''), Str (codes ''title'')]"
  let ?st = "[''enabled_agents'' \<mapsto> List ?xs]"
  have h: "?st ''enabled_agents'' = Some (List ?xs) \<and> ?xs \<noteq> []" by simp
  note c = C5_static_levels [of ?st ?xs, THEN conjunct2, THEN conjunct2, THEN conjunct1,
      THEN mp, OF h]
  have f: "filter (\<lambda>a. Str (codes a) \<in> set ?xs) full_agent_sequence
      = [''title'', ''final_compilation'']"
    by (simp add: full_agent_sequence_def codes_def)
  have g: "filter (\<lambda>g. g \<noteq> [])
              (map (filter (\<lambda>a. Str (codes a) \<in> set ?xs)) get_parallel_groups)
      = [[''title''], [''final_compilation'']]"
    by (simp add: get_parallel_groups_def codes_def)
  from c [THEN conjunct1] have 1: "filtered_agent_sequence ?st = Inr [''title'', ''final_compilation'']"
    unfolding f .
  from c [THEN conjunct2] have 2: "filtered_parallel_groups [''title'', ''final_compilation'']
     = [[''title''], [''final_compilation'']]"
    unfolding f g .
  from 1 2 show ?thesis by (rule conjI)
qed

text \<open>
  Claim C2, as stated, fails: \<open>EditPipeline.execute\<close> never calls
  \<open>_group_by_dependency_level\<close>.  For the request \<open>[scope_refinement, business_analyst]\<close>
  on a generated document the level grouping has four levels, while \<open>execute\<close> submits
  the five tasks as one batch.
\<close>

theorem C2_single_batch_counterexample:
  "group_by_dependency_level 5 get_agent_dependencies generated_session
       (get_agent_sequence generated_session [''scope_refinement'', ''business_analyst''])
     = Some [[''scope_refinement''], [''business_analyst'', ''technical_architect''],
             [''project_manager''], [''resource_allocation'']]
   \<and> dispatched (edit_execute (\<lambda>a s. Inr Map.empty) (\<lambda>batch. batch) generated_session
        [''scope_refinement'', ''business_analyst''] Map.empty)
     = [[''scope_refinement'', ''business_analyst'', ''technical_architect'',
         ''project_manager'', ''resource_allocation'']]"
proof -
  have s: "get_agent_sequence generated_session [''scope_refinement'', ''business_analyst'']
     = [''scope_refinement'', ''business_analyst'', ''technical_architect'',
        ''project_manager'', ''resource_allocation'']"
    by (simp add: get_agent_sequence_def expand_with_dependencies_def
        get_agent_dependencies_def agent_order_def generated_session_def)
  have g: "group_by_dependency_level 5 get_agent_dependencies generated_session
       [''scope_refinement'', ''business_analyst'', ''technical_architect'',
        ''project_manager'', ''resource_allocation'']
     = Some [[''scope_refinement''], [''business_analyst'', ''technical_architect''],
             [''project_manager''], [''resource_allocation'']]"
    by (simp add: group_by_dependency_level_def generated_session_def
        get_agent_dependencies_def eval_nat_numeral group_levels_def Let_def)
  have d: "dispatched (edit_execute (\<lambda>a s. Inr Map.empty) (\<lambda>batch. batch) generated_session
        [''scope_refinement'', ''business_analyst''] Map.empty)
     = [get_agent_sequence generated_session [''scope_refinement'', ''business_analyst'']]"
    by (rule edit_execute_dispatched) (simp_all add: s)
  show ?thesis unfolding d s g by (rule conjI) (rule refl)+
qed

text \<open>
  Claim C2, amended.  An edit with a non-empty request and a non-empty expanded sequence
  is executed as a single batch holding the whole expanded sequence; every task runs on
  the same snapshot, the state as it was when \<open>execute\<close> was called, and when all tasks
  succeed the final state is that state updated with the results in completion order.
  The level function of the claim is what \<open>get_level\<close> inside
  \<open>_group_by_dependency_level\<close> computes for the dependency table of the edit pipeline:
  \<open>0\<close> for a task with no dependency inside the subset, otherwise one more than the
  greatest level of its dependencies inside the subset.
\<close>

theorem C2_edit_schedule:
  "(agents \<noteq> [] \<and> get_agent_sequence sess agents \<noteq> [] \<longrightarrow>
      dispatched (edit_execute run order sess agents st) = [get_agent_sequence sess agents])
   \<and> (agents \<noteq> [] \<and> get_agent_sequence sess agents \<noteq> []
       \<and> (\<forall>a \<in> set (order (get_agent_sequence sess agents)). \<exists>u. run a st = Inr u) \<longrightarrow>
      raised (edit_execute run order sess agents st) = None
      \<and> final_state (edit_execute run order sess agents st)
         = foldl (\<lambda>s a. s ++ (case run a st of Inr u \<Rightarrow> u | Inl e \<Rightarrow> Map.empty)) st
             (order (get_agent_sequence sess agents)))
   \<and> (\<exists>l. get_level (Suc (Suc (Suc (Suc (Suc d))))) get_agent_dependencies sq a = Some l
        \<and> l = (let in_deps = filter (\<lambda>dep. dep \<in> set sq)
                     (case map_of get_agent_dependencies a of None \<Rightarrow> [] | Some x \<Rightarrow> x)
                in if in_deps = [] then 0
                   else 1 + Max ((\<lambda>dep. the (get_level (Suc (Suc (Suc (Suc (Suc d)))))
                                               get_agent_dependencies sq dep)) ` set in_deps)))"
proof (intro conjI impI)
  assume "agents \<noteq> [] \<and> get_agent_sequence sess agents \<noteq> []"
  then show "dispatched (edit_execute run order sess agents st) = [get_agent_sequence sess agents]"
    by (simp add: edit_execute_dispatched)
next
  assume a: "agents \<noteq> [] \<and> get_agent_sequence sess agents \<noteq> []
       \<and> (\<forall>a \<in> set (order (get_agent_sequence sess agents)). \<exists>u. run a st = Inr u)"
  then have 1: "agents \<noteq> []" and 2: "get_agent_sequence sess agents \<noteq> []"
    and 3: "\<forall>a \<in> set (order (get_agent_sequence sess agents)). \<exists>u. run a st = Inr u"
    by blast+
  have r: "raised (edit_execute run order sess agents st) = None
       \<and> final_state (edit_execute run order sess agents st)
         = foldl (\<lambda>s a. s ++ (case run a st of Inr u \<Rightarrow> u | Inl e \<Rightarrow> Map.empty)) st
             (order (get_agent_sequence sess agents))"
    using 1 2 3 by (rule edit_execute_all_succeed)
  from r show "raised (edit_execute run order sess agents st) = None" by (rule conjunct1)
  from r show "final_state (edit_execute run order sess agents st)
         = foldl (\<lambda>s a. s ++ (case run a st of Inr u \<Rightarrow> u | Inl e \<Rightarrow> Map.empty)) st
             (order (get_agent_sequence sess agents))" by (rule conjunct2)
next
  obtain l where l: "get_level (Suc (Suc (Suc (Suc (Suc d))))) get_agent_dependencies sq a = Some l"
    using table_depth [of d sq a] by blast
  from get_level_formula [OF l] l
  show "\<exists>l. get_level (Suc (Suc (Suc (Suc (Suc d))))) get_agent_dependencies sq a = Some l
        \<and> l = (let in_deps = filter (\<lambda>dep. dep \<in> set sq)
                     (case map_of get_agent_dependencies a of None \<Rightarrow> [] | Some x \<Rightarrow> x)
                in if in_deps = [] then 0
                   else 1 + Max ((\<lambda>dep. the (get_level (Suc (Suc (Suc (Suc (Suc d)))))
                                               get_agent_dependencies sq dep)) ` set in_deps))"
    by blast
qed

text \<open>The instance: the request of the counterexample, with tasks that return no update.\<close>

theorem C2_edit_schedule_witness:
  "dispatched (edit_execute (\<lambda>a s. Inr Map.empty) (\<lambda>batch. batch) generated_session
        [''scope_refinement'', ''business_analyst''] Map.empty)
     = [[''scope_refinement'', ''business_analyst'', ''technical_architect'',
         ''project_manager'', ''resource_allocation'']]"
proof -
  have s: "get_agent_sequence generated_session [''scope_refinement'', ''business_analyst'']
     = [''scope_refinement'', ''business_analyst'', ''technical_architect'',
        ''project_manager'', ''resource_allocation'']"
    by (simp add: get_agent_sequence_def expand_with_dependencies_def
        get_agent_dependencies_def agent_order_def generated_session_def)
  have h: "[''scope_refinement'', ''business_analyst''] \<noteq> []
      \<and> get_agent_sequence generated_session [''scope_refinement'', ''business_analyst''] \<noteq> []"
    by (simp add: s)
  have "dispatched (edit_execute (\<lambda>a s. Inr Map.empty) (\<lambda>batch. batch) generated_session
        [''scope_refinement'', ''business_analyst''] Map.empty)
     = [get_agent_sequence generated_session [''scope_refinement'', ''business_analyst'']]"
    by (rule C2_edit_schedule [THEN conjunct1, THEN mp, OF h])
  then show ?thesis by (simp only: s)
qed





end
